theory Spec2Isabelle
  imports Complex_Main "HOL-Library.Log_Nat" "HOL-Library.Monad_Syntax"
begin

section \<open>Numbers\<close>

text \<open>
  The calculator (\<^verbatim>\<open>src/tempo-calculator.js\<close>) works on JavaScript numbers. A finite
  JavaScript number is a rational, and every arithmetic operation of the language returns the
  exactly computed result rounded to a representable number. The embedding keeps the two
  apart: values are rationals, and every operation rounds its exact result with a rounding
  function \<open>rnd\<close> that the engine takes as a parameter. Two roundings are of interest:

  \<^item> \<open>exact\<close>, the identity: arithmetic on the reals, which is how the specification reads
    the formulas;
  \<^item> \<open>binary64\<close>: round to nearest, ties to even, with a significand of 53 bits and no
    bound on the exponent. It is what a JavaScript engine does as long as the result is a
    normal number, of magnitude from \<open>2 ^ -1022\<close> to below \<open>2 ^ 1024\<close>;
  \<^item> \<open>ieee64\<close>: \<open>binary64\<close> with the gradual underflow of IEEE 754, where a result of
    magnitude below \<open>2 ^ -1022\<close> is rounded to a multiple of \<open>2 ^ -1074\<close>, so that a
    small product rounds to 0.

  Outside the model: overflow to an infinity, the values NaN and the infinities, and the
  sign of zero. Where JavaScript would divide by zero and continue with an infinity or
  NaN, the model stops with the outcome \<open>ZeroDenominator\<close> instead of inventing a value.
  What is proved of the roundings without an exponent range is therefore a statement on
  the code for normal numbers only.
\<close>

type_synonym rounding = "rat \<Rightarrow> rat"

definition exact :: rounding where
  "exact x = x"

text \<open>The binary exponent of a positive rational: \<open>2 ^ e \<le> x < 2 ^ (e + 1)\<close>.\<close>

definition expo :: "rat \<Rightarrow> int" where
  "expo x =
     (if 1 \<le> x then bitlen \<lfloor>x\<rfloor> - 1
      else (let k = bitlen \<lfloor>1 / x\<rfloor> in if x * 2 ^ nat (k - 1) = 1 then 1 - k else - k))"

definition scale2 :: "rat \<Rightarrow> int \<Rightarrow> rat" where
  "scale2 x e = (if 0 \<le> e then x * 2 ^ nat e else x / 2 ^ nat (- e))"

text \<open>Rounding to the nearest integer, a tie going to the even neighbour.\<close>

definition roundEven :: "rat \<Rightarrow> int" where
  "roundEven y =
     (let f = \<lfloor>y\<rfloor>; r = y - of_int f
      in if r < 1 / 2 then f else if 1 / 2 < r then f + 1 else if even f then f else f + 1)"

definition round53 :: "rat \<Rightarrow> rat" where
  "round53 x = (let e = expo x in scale2 (of_int (roundEven (scale2 x (52 - e)))) (e - 52))"

definition binary64 :: rounding where
  "binary64 x = (if x = 0 then 0 else if 0 < x then round53 x else - round53 (- x))"

text \<open>
  Below \<open>2 ^ -1022\<close> the representable numbers are the multiples of \<open>2 ^ -1074\<close>, the
  spacing of the normal numbers next to them.
\<close>

definition ieee64 :: rounding where
  "ieee64 x =
     (if \<bar>x\<bar> < 1 / 2 ^ 1022 then of_int (roundEven (x * 2 ^ 1074)) / 2 ^ 1074
      else binary64 x)"

text \<open>The operators \<^verbatim>\<open>+\<close>, \<^verbatim>\<open>-\<close>, \<^verbatim>\<open>*\<close>, \<^verbatim>\<open>/\<close> and \<^verbatim>\<open>Math.floor\<close>.\<close>

definition jadd :: "rounding \<Rightarrow> rat \<Rightarrow> rat \<Rightarrow> rat" where
  "jadd rnd x y = rnd (x + y)"

definition jsub :: "rounding \<Rightarrow> rat \<Rightarrow> rat \<Rightarrow> rat" where
  "jsub rnd x y = rnd (x - y)"

definition jmul :: "rounding \<Rightarrow> rat \<Rightarrow> rat \<Rightarrow> rat" where
  "jmul rnd x y = rnd (x * y)"

definition jdiv :: "rounding \<Rightarrow> rat \<Rightarrow> rat \<Rightarrow> rat option" where
  "jdiv rnd x y = (if y = 0 then None else Some (rnd (x / y)))"

definition jfloor :: "rat \<Rightarrow> rat" where
  "jfloor x = of_int \<lfloor>x\<rfloor>"

section \<open>Data\<close>

text \<open>
  The parameter object \<^verbatim>\<open>{ a, b, s, B, R, N }\<close>, its fields under the names of the form
  fields they are read from: \<open>a\<close> is \<open>startTempo\<close>, \<open>b\<close> is \<open>endTempo\<close>, \<open>s\<close> is
  \<open>stepSize\<close>, \<open>B\<close> is \<open>beatsPerPhrase\<close>, \<open>R\<close> is \<open>repetitions\<close> and \<open>N\<close> is \<open>sets\<close>.
\<close>

record params =
  startTempo :: rat
  endTempo :: rat
  stepSize :: rat
  beatsPerPhrase :: rat
  repetitions :: rat
  sets :: rat

text \<open>The returned object \<^verbatim>\<open>{ results: {...}, metadata: {...} }\<close>.\<close>

record result_values =
  exactSeconds :: rat
  approxSeconds :: rat
  errorRate :: rat

record result_metadata =
  nSteps :: rat
  actualEndTempo :: rat
  totalBeatsPerStep :: rat
  timeConstantC :: rat
  inputParams :: params

record practice_result =
  results :: result_values
  metadata :: result_metadata

text \<open>
  The four \<^verbatim>\<open>throw new Error(...)\<close> of the validation, in the order of the source and
  under the names the specification gives them, and the outcome of the model for a zero
  denominator.
\<close>

datatype error =
  NonPositiveStep
  | NonPositiveTempo
  | InvalidTempoRange
  | NonPositiveCount
  | ZeroDenominator

section \<open>The engine\<close>

text \<open>
  \<^verbatim>\<open>kahanSum\<close> (lines 31 to 43): the loop over the indices of the array. The variable
  \<^verbatim>\<open>sum\<close> is \<open>ksum\<close> here.
\<close>

function kahanLoop :: "rounding \<Rightarrow> rat list \<Rightarrow> nat \<Rightarrow> rat \<Rightarrow> rat \<Rightarrow> rat" where
  "kahanLoop rnd numbers i ksum compensation =
     (if i < length numbers then
        (let y = jsub rnd (numbers ! i) compensation;
             t = jadd rnd ksum y
         in kahanLoop rnd numbers (i + 1) t (jsub rnd (jsub rnd t ksum) y))
      else ksum)"
  by pat_completeness auto
termination
  by (relation "measure (\<lambda>(rnd, numbers, i, ksum, compensation). length numbers - i)") auto

definition kahanSum :: "rounding \<Rightarrow> rat list \<Rightarrow> rat" where
  "kahanSum rnd numbers = kahanLoop rnd numbers 0 0 0"

text \<open>The validation (lines 62 to 73): the first check that fails decides the error.\<close>

definition validate :: "params \<Rightarrow> error option" where
  "validate params =
     (let a = startTempo params; b = endTempo params; s = stepSize params;
          B = beatsPerPhrase params; R = repetitions params; N = sets params
      in if s \<le> 0 then Some NonPositiveStep
         else if a \<le> 0 \<or> b \<le> 0 then Some NonPositiveTempo
         else if a \<ge> b then Some InvalidTempoRange
         else if B \<le> 0 \<or> R \<le> 0 \<or> N \<le> 0 then Some NonPositiveCount
         else None)"

text \<open>
  The loop that fills \<^verbatim>\<open>stepTimes\<close> (lines 91 to 96). The counter \<open>k\<close> runs through
  0, 1, 2, ... and is kept as a natural number: a JavaScript number holds these values
  exactly up to \<open>2 ^ 53\<close>, far beyond the length an array can reach.
\<close>

function stepTimesLoop ::
  "rounding \<Rightarrow> rat \<Rightarrow> rat \<Rightarrow> rat \<Rightarrow> rat \<Rightarrow> nat \<Rightarrow> rat list \<Rightarrow> rat list option" where
  "stepTimesLoop rnd C a s n k stepTimes =
     (if of_nat k \<le> n then
        (let tempo = jadd rnd a (jmul rnd s (of_nat k))
         in case jdiv rnd C tempo of
              None \<Rightarrow> None
            | Some stepTime \<Rightarrow> stepTimesLoop rnd C a s n (k + 1) (stepTimes @ [stepTime]))
      else Some stepTimes)"
  by pat_completeness auto
termination
  by (relation "measure (\<lambda>(rnd, C, a, s, n, k, stepTimes). nat (\<lfloor>n\<rfloor> + 1 - int k))")
    (auto simp: le_floor_iff)

text \<open>The computation after the validation (lines 75 to 137).\<close>

definition computeStage :: "rounding \<Rightarrow> params \<Rightarrow> practice_result option" where
  "computeStage rnd params =
     (let a = startTempo params; b = endTempo params; s = stepSize params;
          B = beatsPerPhrase params; R = repetitions params; N = sets params;
          K = jmul rnd B R
      in do {
        q \<leftarrow> jdiv rnd (jsub rnd b a) s;
        let n = jfloor q;
        let bPrime = jadd rnd a (jmul rnd n s);
        let C = jmul rnd 60 K;
        stepTimes \<leftarrow> stepTimesLoop rnd C a s n 0 [];
        let sumExact = kahanSum rnd stepTimes;
        let totalExact = jmul rnd sumExact N;
        let S = jadd rnd a bPrime;
        let P = jmul rnd a bPrime;
        termIntegral \<leftarrow>
          jdiv rnd (jmul rnd (jmul rnd 4 n) S) (jadd rnd (jmul rnd S S) (jmul rnd 4 P));
        termCorrection \<leftarrow> jdiv rnd S (jmul rnd 2 P);
        let sumApprox = jmul rnd C (jadd rnd termIntegral termCorrection);
        let totalApprox = jmul rnd sumApprox N;
        relative \<leftarrow> jdiv rnd (jsub rnd totalApprox totalExact) totalExact;
        let errorRate = jmul rnd relative 100;
        Some \<lparr>results = \<lparr>exactSeconds = totalExact, approxSeconds = totalApprox,
                           errorRate = errorRate\<rparr>,
              metadata = \<lparr>nSteps = n, actualEndTempo = bPrime, totalBeatsPerStep = K,
                            timeConstantC = C, inputParams = params\<rparr>\<rparr>
      })"

text \<open>\<^verbatim>\<open>calculateTempoPracticeTime\<close> (lines 58 to 138).\<close>

definition calculateTempoPracticeTime :: "rounding \<Rightarrow> params \<Rightarrow> error + practice_result" where
  "calculateTempoPracticeTime rnd params =
     (case validate params of
        Some e \<Rightarrow> Inl e
      | None \<Rightarrow>
          (case computeStage rnd params of
             None \<Rightarrow> Inl ZeroDenominator
           | Some r \<Rightarrow> Inr r))"

section \<open>Notions of the specification\<close>

text \<open>
  A valid input, as the claims spell it out: \<open>a > 0\<close>, \<open>b > 0\<close>, \<open>a < b\<close>, \<open>s > 0\<close>,
  \<open>B > 0\<close>, \<open>R > 0\<close>, \<open>N > 0\<close>.
\<close>

definition valid_input :: "params \<Rightarrow> bool" where
  "valid_input p \<longleftrightarrow>
     0 < startTempo p \<and> 0 < endTempo p \<and> startTempo p < endTempo p \<and> 0 < stepSize p \<and>
     0 < beatsPerPhrase p \<and> 0 < repetitions p \<and> 0 < sets p"

text \<open>
  Compensated summation in the words of the specification (section 4.2): a running total
  and a compensation term; each new value has the compensation subtracted before it is
  added, and the compensation becomes the residual lost in that addition.
\<close>

definition compensatedStep :: "rounding \<Rightarrow> rat \<times> rat \<Rightarrow> rat \<Rightarrow> rat \<times> rat" where
  "compensatedStep rnd st v =
     (let total = fst st; comp = snd st;
          corrected = jsub rnd v comp;
          new_total = jadd rnd total corrected
      in (new_total, jsub rnd (jsub rnd new_total total) corrected))"

definition compensatedSum :: "rounding \<Rightarrow> rat list \<Rightarrow> rat" where
  "compensatedSum rnd vs = fst (foldl (compensatedStep rnd) (0, 0) vs)"

text \<open>Naive accumulation from left to right, for comparison.\<close>

definition naiveSum :: "rounding \<Rightarrow> rat list \<Rightarrow> rat" where
  "naiveSum rnd vs = foldl (jadd rnd) 0 vs"

section \<open>Inputs used as examples\<close>

text \<open>The concrete scenario of the specification (section 8).\<close>

definition scenarioInput :: params where
  "scenarioInput =
     \<lparr>startTempo = 60, endTempo = 120, stepSize = 10,
      beatsPerPhrase = 4, repetitions = 2, sets = 3\<rparr>"

text \<open>The boundary case of the specification (section 8): a step that overshoots at once.\<close>

definition boundaryInput :: params where
  "boundaryInput =
     \<lparr>startTempo = 100, endTempo = 101, stepSize = 5,
      beatsPerPhrase = 4, repetitions = 2, sets = 3\<rparr>"

text \<open>Tempos with one decimal, as typed into the form: 63.4 and 2.6 are not binary fractions.\<close>

definition overshootInput :: params where
  "overshootInput =
     \<lparr>startTempo = 40, endTempo = binary64 (634 / 10), stepSize = binary64 (26 / 10),
      beatsPerPhrase = 4, repetitions = 2, sets = 3\<rparr>"

text \<open>A single step that overshoots, with a start tempo whose reciprocal is not a binary fraction.\<close>

definition zeroStepInput :: params where
  "zeroStepInput =
     \<lparr>startTempo = 9, endTempo = 10, stepSize = 5,
      beatsPerPhrase = 1, repetitions = 1, sets = 1\<rparr>"



text \<open>One and a half beats per phrase.\<close>

definition fractionalInput :: params where
  "fractionalInput =
     \<lparr>startTempo = 60, endTempo = 120, stepSize = 10,
      beatsPerPhrase = 3 / 2, repetitions = 2, sets = 3\<rparr>"

text \<open>The results the engine returns for these inputs, as the lemmas of the evaluation show.\<close>

definition scenarioResult64 :: practice_result where
  "scenarioResult64 =
     \<lparr>results = \<lparr>exactSeconds = 1038487304497253 / 8796093022208,
                  approxSeconds = 4209706636981429 / 35184372088832,
                  errorRate = 3022534439154211 / 2251799813685248\<rparr>,
      metadata = \<lparr>nSteps = 6, actualEndTempo = 120, totalBeatsPerStep = 8,
                   timeConstantC = 480, inputParams = scenarioInput\<rparr>\<rparr>"

definition scenarioResultExact :: practice_result where
  "scenarioResultExact =
     \<lparr>results = \<lparr>exactSeconds = 45454 / 385, approxSeconds = 2034 / 17,
                  errorRate = 518600 / 386359\<rparr>,
      metadata = \<lparr>nSteps = 6, actualEndTempo = 120, totalBeatsPerStep = 8,
                   timeConstantC = 480, inputParams = scenarioInput\<rparr>\<rparr>"

definition boundaryResultExact :: practice_result where
  "boundaryResultExact =
     \<lparr>results = \<lparr>exactSeconds = 72 / 5, approxSeconds = 72 / 5, errorRate = 0\<rparr>,
      metadata = \<lparr>nSteps = 0, actualEndTempo = 100, totalBeatsPerStep = 8,
                   timeConstantC = 480, inputParams = boundaryInput\<rparr>\<rparr>"

definition zeroStepResultExact :: practice_result where
  "zeroStepResultExact =
     \<lparr>results = \<lparr>exactSeconds = 20 / 3, approxSeconds = 20 / 3, errorRate = 0\<rparr>,
      metadata = \<lparr>nSteps = 0, actualEndTempo = 9, totalBeatsPerStep = 1,
                   timeConstantC = 60, inputParams = zeroStepInput\<rparr>\<rparr>"

text \<open>
  A rounding is faithful when its relative error is at most \<open>2 ^ -53\<close>, it is monotone and
  it leaves its own results unchanged.
\<close>

definition faithful :: "rounding \<Rightarrow> bool" where
  "faithful rnd \<longleftrightarrow>
     (\<forall>x. \<bar>rnd x - x\<bar> \<le> \<bar>x\<bar> / 2 ^ 53) \<and> mono rnd \<and> (\<forall>x. rnd (rnd x) = rnd x)"

section \<open>Lemmas on the loops\<close>

declare kahanLoop.simps [simp del]
declare stepTimesLoop.simps [simp del]

lemma compensatedStep_pair:
  "compensatedStep rnd (s, c) v =
     (jadd rnd s (jsub rnd v c), jsub rnd (jsub rnd (jadd rnd s (jsub rnd v c)) s) (jsub rnd v c))"
  by (simp add: compensatedStep_def Let_def)

lemma floor_counter: "of_nat k \<le> (n::rat) \<longleftrightarrow> k < nat (\<lfloor>n\<rfloor> + 1)"
proof -
  have "of_nat k \<le> n \<longleftrightarrow> int k \<le> \<lfloor>n\<rfloor>" by (simp add: le_floor_iff)
  also have "\<dots> \<longleftrightarrow> k < nat (\<lfloor>n\<rfloor> + 1)" by linarith
  finally show ?thesis .
qed

lemma validate_None_iff: "validate p = None \<longleftrightarrow> valid_input p"
  by (auto simp: validate_def valid_input_def Let_def)

text \<open>The loop of \<^verbatim>\<open>kahanSum\<close> from index \<open>i\<close> on is a fold over the rest of the array.\<close>

lemma kahanLoop_foldl:
  "i \<le> length xs \<Longrightarrow>
   kahanLoop rnd xs i s c = fst (foldl (compensatedStep rnd) (s, c) (drop i xs))"
proof (induction rnd xs i s c rule: kahanLoop.induct)
  case (1 rnd numbers i ksum compensation)
  show ?case
  proof (cases "i < length numbers")
    case True
    then have d: "drop i numbers = numbers ! i # drop (Suc i) numbers"
      by (simp add: Cons_nth_drop_Suc)
    from True have "Suc i \<le> length numbers" by simp
    with 1 True show ?thesis
      by (subst kahanLoop.simps) (simp add: d compensatedStep_pair Let_def)
  next
    case False
    with 1 show ?thesis by (subst kahanLoop.simps) simp
  qed
qed

lemma kahanSum_compensated: "kahanSum rnd xs = compensatedSum rnd xs"
  by (simp add: kahanSum_def compensatedSum_def kahanLoop_foldl)

text \<open>
  What the loop over \<open>k\<close> returns: one entry per \<open>k\<close> with \<open>k \<le> n\<close>, in order, and no
  tempo on the way was zero.
\<close>

lemma stepTimesLoop_Some:
  "stepTimesLoop rnd C a s n k acc = Some ys \<Longrightarrow>
   ys = acc @ map (\<lambda>j. rnd (C / jadd rnd a (jmul rnd s (of_nat j)))) [k ..< nat (\<lfloor>n\<rfloor> + 1)]
   \<and> (\<forall>j. k \<le> j \<and> of_nat j \<le> n \<longrightarrow> jadd rnd a (jmul rnd s (of_nat j)) \<noteq> 0)"
proof (induction rnd C a s n k acc arbitrary: ys rule: stepTimesLoop.induct)
  case (1 rnd C a s n k stepTimes)
  show ?case
  proof (cases "of_nat k \<le> n")
    case True
    then have kn: "k < nat (\<lfloor>n\<rfloor> + 1)" by (simp add: floor_counter)
    from True "1.prems" obtain st where
      st: "jdiv rnd C (jadd rnd a (jmul rnd s (of_nat k))) = Some st"
      and rest: "stepTimesLoop rnd C a s n (k + 1) (stepTimes @ [st]) = Some ys"
      by (subst (asm) stepTimesLoop.simps) (auto simp: Let_def split: option.splits)
    from st have nz: "jadd rnd a (jmul rnd s (of_nat k)) \<noteq> 0"
      and stv: "st = rnd (C / jadd rnd a (jmul rnd s (of_nat k)))"
      by (auto simp: jdiv_def split: if_splits)
    from "1.IH"[OF True refl st rest] have
      ih: "ys = (stepTimes @ [st]) @
        map (\<lambda>j. rnd (C / jadd rnd a (jmul rnd s (of_nat j)))) [k + 1 ..< nat (\<lfloor>n\<rfloor> + 1)]"
      and ihz: "\<forall>j. k + 1 \<le> j \<and> of_nat j \<le> n \<longrightarrow> jadd rnd a (jmul rnd s (of_nat j)) \<noteq> 0"
      by auto
    have "[k ..< nat (\<lfloor>n\<rfloor> + 1)] = k # [k + 1 ..< nat (\<lfloor>n\<rfloor> + 1)]"
      using kn by (simp add: upt_conv_Cons)
    with ih stv have "ys = stepTimes @
        map (\<lambda>j. rnd (C / jadd rnd a (jmul rnd s (of_nat j)))) [k ..< nat (\<lfloor>n\<rfloor> + 1)]"
      by simp
    moreover have "\<forall>j. k \<le> j \<and> of_nat j \<le> n \<longrightarrow> jadd rnd a (jmul rnd s (of_nat j)) \<noteq> 0"
    proof (intro allI impI)
      fix j assume "k \<le> j \<and> of_nat j \<le> n"
      then show "jadd rnd a (jmul rnd s (of_nat j)) \<noteq> 0"
        using nz ihz by (cases "j = k") auto
    qed
    ultimately show ?thesis by blast
  next
    case False
    then have "\<not> k < nat (\<lfloor>n\<rfloor> + 1)" by (simp add: floor_counter)
    with False "1.prems" show ?thesis
      by (subst (asm) stepTimesLoop.simps) auto
  qed
qed

lemma stepTimesLoop_returns:
  "(\<forall>j. k \<le> j \<and> of_nat j \<le> n \<longrightarrow> jadd rnd a (jmul rnd s (of_nat j)) \<noteq> 0) \<Longrightarrow>
   \<exists>ys. stepTimesLoop rnd C a s n k acc = Some ys"
proof (induction rnd C a s n k acc rule: stepTimesLoop.induct)
  case (1 rnd C a s n k stepTimes)
  show ?case
  proof (cases "of_nat k \<le> n")
    case True
    with "1.prems" have nz: "jadd rnd a (jmul rnd s (of_nat k)) \<noteq> 0" by auto
    then have st: "jdiv rnd C (jadd rnd a (jmul rnd s (of_nat k)))
        = Some (rnd (C / jadd rnd a (jmul rnd s (of_nat k))))"
      by (simp add: jdiv_def)
    have "\<exists>ys. stepTimesLoop rnd C a s n (k + 1)
        (stepTimes @ [rnd (C / jadd rnd a (jmul rnd s (of_nat k)))]) = Some ys"
      using "1.IH"[OF True refl st] "1.prems" by auto
    with True st show ?thesis
      by (subst stepTimesLoop.simps) (simp add: Let_def)
  next
    case False
    then show ?thesis by (subst stepTimesLoop.simps) simp
  qed
qed

text \<open>The integers from 0 to \<open>n\<close> inclusive are the values of the loop counter.\<close>

lemma upto_from_zero: "[0..n] = map int [0 ..< nat (n + 1)]"
proof (cases "0 \<le> n")
  case True
  then obtain m where n: "n = int m" using nonneg_int_cases by blast
  have "[0..int m] = map int [0 ..< Suc m]"
  proof (induction m)
    case 0
    show ?case by (simp add: upto.simps)
  next
    case (Suc m)
    have "[0..int (Suc m)] = [0..int m] @ [int (Suc m)]"
      by (simp add: upto_rec2)
    with Suc show ?case by simp
  qed
  then show ?thesis by (simp add: n nat_add_distrib)
next
  case False
  then show ?thesis by (simp add: upto.simps)
qed

lemma map_upto_from_zero:
  "map (\<lambda>k. f (of_nat k)) [0 ..< nat (\<lfloor>jfloor x\<rfloor> + 1)] = map (\<lambda>k. f (of_int k)) [0..\<lfloor>x\<rfloor>]"
  by (simp add: upto_from_zero jfloor_def comp_def)

section \<open>Exact arithmetic\<close>

lemma exact_ops [simp]:
  "jadd exact x y = x + y" "jsub exact x y = x - y" "jmul exact x y = x * y"
  "jdiv exact x y = (if y = 0 then None else Some (x / y))"
  by (simp_all add: jadd_def jsub_def jmul_def jdiv_def exact_def)

text \<open>Without rounding the compensation stays zero and the sum is the plain sum.\<close>

lemma compensated_exact: "foldl (compensatedStep exact) (s, 0) xs = (s + sum_list xs, 0)"
  by (induction xs arbitrary: s) (simp_all add: compensatedStep_pair add.assoc)

lemma kahanSum_exact: "kahanSum exact xs = sum_list xs"
  by (simp add: kahanSum_compensated compensatedSum_def compensated_exact)

lemma sum_list_pos: "xs \<noteq> [] \<Longrightarrow> (\<forall>x \<in> set xs. 0 < x) \<Longrightarrow> 0 < sum_list (xs :: rat list)"
  by (induction xs) (auto simp: add_pos_nonneg sum_list_nonneg less_imp_le)

section \<open>What a returned result holds\<close>

lemma computeStage_Some:
  assumes "computeStage rnd p = Some r"
  shows "stepSize p \<noteq> 0"
    and "inputParams (metadata r) = p"
    and "totalBeatsPerStep (metadata r) = jmul rnd (beatsPerPhrase p) (repetitions p)"
    and "timeConstantC (metadata r) = jmul rnd 60 (jmul rnd (beatsPerPhrase p) (repetitions p))"
    and "nSteps (metadata r) = jfloor (rnd (jsub rnd (endTempo p) (startTempo p) / stepSize p))"
    and "actualEndTempo (metadata r) =
           jadd rnd (startTempo p) (jmul rnd (nSteps (metadata r)) (stepSize p))"
    and "\<forall>k. of_nat k \<le> nSteps (metadata r) \<longrightarrow>
           jadd rnd (startTempo p) (jmul rnd (stepSize p) (of_nat k)) \<noteq> 0"
    and "exactSeconds (results r) =
           jmul rnd (kahanSum rnd (map (\<lambda>k. rnd (timeConstantC (metadata r) /
               jadd rnd (startTempo p) (jmul rnd (stepSize p) (of_nat k))))
             [0 ..< nat (\<lfloor>nSteps (metadata r)\<rfloor> + 1)])) (sets p)"
  using assms
  apply (simp_all add: computeStage_def Let_def split: Option.bind_splits)
  apply (auto simp: jdiv_def split: if_splits dest!: stepTimesLoop_Some)
  done

lemma computeStage_Some_approx:
  assumes "computeStage rnd p = Some r"
  defines "a \<equiv> startTempo p" and "n \<equiv> nSteps (metadata r)"
    and "bPrime \<equiv> actualEndTempo (metadata r)" and "C \<equiv> timeConstantC (metadata r)"
  defines "S \<equiv> jadd rnd a bPrime" and "P \<equiv> jmul rnd a bPrime"
  shows "jadd rnd (jmul rnd S S) (jmul rnd 4 P) \<noteq> 0"
    and "jmul rnd 2 P \<noteq> 0"
    and "exactSeconds (results r) \<noteq> 0"
    and "approxSeconds (results r) =
           jmul rnd (jmul rnd C
             (jadd rnd (rnd (jmul rnd (jmul rnd 4 n) S / jadd rnd (jmul rnd S S) (jmul rnd 4 P)))
                       (rnd (S / jmul rnd 2 P)))) (sets p)"
    and "errorRate (results r) =
           jmul rnd (rnd (jsub rnd (approxSeconds (results r)) (exactSeconds (results r))
                          / exactSeconds (results r))) 100"
  using assms(1) unfolding a_def n_def bPrime_def C_def S_def P_def
  apply (simp_all add: computeStage_def Let_def split: Option.bind_splits)
  apply (auto simp: jdiv_def split: if_splits)
  done

lemma calc_Inr_iff:
  "calculateTempoPracticeTime rnd p = Inr r \<longleftrightarrow> valid_input p \<and> computeStage rnd p = Some r"
  by (auto simp: calculateTempoPracticeTime_def validate_None_iff[symmetric]
      split: option.splits)

text \<open>In exact arithmetic a valid input never meets a zero denominator.\<close>

lemma computeStage_exact_returns:
  assumes "valid_input p"
  shows "\<exists>r. computeStage exact p = Some r"
proof -
  define a where "a = startTempo p"
  define b where "b = endTempo p"
  define s where "s = stepSize p"
  define N where "N = sets p"
  define C where "C = 60 * (beatsPerPhrase p * repetitions p)"
  define n where "n = jfloor ((b - a) / s)"
  define bPrime where "bPrime = a + n * s"
  from assms have pos: "0 < a" "0 < b" "a < b" "0 < s" "0 < N" "0 < C"
    by (simp_all add: valid_input_def a_def b_def s_def N_def C_def)
  have n0: "0 \<le> n" using pos by (simp add: n_def jfloor_def)
  then have bp: "0 < bPrime" using pos by (simp add: bPrime_def add_pos_nonneg)
  have tempo: "0 < a + s * of_nat k" for k
    using pos by (simp add: add_pos_nonneg)
  then have "\<forall>j. 0 \<le> j \<and> of_nat j \<le> n \<longrightarrow> jadd exact a (jmul exact s (of_nat j)) \<noteq> 0"
    by (simp add: less_imp_neq[THEN not_sym])
  from stepTimesLoop_returns[OF this] obtain ys where
    ys: "stepTimesLoop exact C a s n 0 [] = Some ys" by blast
  define m where "m = nat (\<lfloor>n\<rfloor> + 1)"
  from stepTimesLoop_Some[OF ys] have ysv:
    "ys = map (\<lambda>j. C / (a + s * of_nat j)) [0 ..< m]"
    by (simp add: exact_def m_def)
  have "0 \<le> \<lfloor>n\<rfloor>" using n0 by simp
  then have "0 < m" unfolding m_def by linarith
  then have ne: "ys \<noteq> []" by (simp add: ysv)
  have "\<forall>x \<in> set ys. 0 < x" using pos tempo by (auto simp: ysv)
  with ne have "0 < sum_list ys" by (rule sum_list_pos)
  then have tot: "sum_list ys * N \<noteq> 0" using pos by simp
  have P: "a * (a + n * s) \<noteq> 0" using pos bp by (simp add: bPrime_def)
  have bp': "0 < a + n * s" using bp by (simp add: bPrime_def)
  have "0 < a + (a + n * s)" using pos(1) bp' by (rule add_pos_pos)
  then have "0 < (a + (a + n * s)) * (a + (a + n * s))" by (rule mult_pos_pos) fact
  moreover have "0 < 4 * (a * (a + n * s))" using pos bp' by simp
  ultimately have "0 < (a + (a + n * s)) * (a + (a + n * s)) + 4 * (a * (a + n * s))"
    by (rule add_pos_pos)
  then have den: "(a + (a + n * s)) * (a + (a + n * s)) + 4 * (a * (a + n * s)) \<noteq> 0"
    by (rule less_imp_neq[THEN not_sym])
  have s0: "s \<noteq> 0" using pos by simp
  show ?thesis
    using s0 ys tot P den
    by (simp add: computeStage_def Let_def kahanSum_exact a_def[symmetric] b_def[symmetric]
          s_def[symmetric] N_def[symmetric] C_def[symmetric] n_def[symmetric])
qed

lemma exact_returns:
  "valid_input p \<Longrightarrow> \<exists>r. calculateTempoPracticeTime exact p = Inr r"
  using computeStage_exact_returns[of p] by (auto simp: calc_Inr_iff)

text \<open>What the result holds in exact arithmetic.\<close>

lemma exact_result:
  assumes v: "valid_input p" and c: "calculateTempoPracticeTime exact p = Inr r"
  defines "a \<equiv> startTempo p" and "b \<equiv> endTempo p" and "s \<equiv> stepSize p"
    and "N \<equiv> sets p" and "C \<equiv> 60 * (beatsPerPhrase p * repetitions p)"
  defines "n \<equiv> of_int \<lfloor>(b - a) / s\<rfloor>"
  defines "S \<equiv> a + (a + n * s)" and "P \<equiv> a * (a + n * s)"
  shows "nSteps (metadata r) = n"
    and "actualEndTempo (metadata r) = a + n * s"
    and "timeConstantC (metadata r) = C"
    and "exactSeconds (results r) =
           sum_list (map (\<lambda>k. C / (a + s * of_int k)) [0..\<lfloor>(b - a) / s\<rfloor>]) * N"
    and "approxSeconds (results r) = C * (4 * n * S / (S * S + 4 * P) + S / (2 * P)) * N"
    and "errorRate (results r) =
           (approxSeconds (results r) - exactSeconds (results r)) / exactSeconds (results r) * 100"
proof -
  from c have cs: "computeStage exact p = Some r" by (simp add: calc_Inr_iff)
  show n: "nSteps (metadata r) = n"
    using computeStage_Some(5)[OF cs] by (simp add: n_def a_def b_def s_def exact_def jfloor_def)
  show bp: "actualEndTempo (metadata r) = a + n * s"
    using computeStage_Some(6)[OF cs] n by (simp add: a_def s_def)
  show C: "timeConstantC (metadata r) = C"
    using computeStage_Some(4)[OF cs] by (simp add: C_def)
  have "exactSeconds (results r) =
      kahanSum exact (map (\<lambda>k. exact (C / jadd exact a (jmul exact s (of_nat k))))
        [0 ..< nat (\<lfloor>jfloor ((b - a) / s)\<rfloor> + 1)]) * N"
    using computeStage_Some(8)[OF cs] n C
    by (simp add: a_def s_def N_def n_def jfloor_def)
  also have "map (\<lambda>k. exact (C / jadd exact a (jmul exact s (of_nat k))))
        [0 ..< nat (\<lfloor>jfloor ((b - a) / s)\<rfloor> + 1)]
      = map (\<lambda>k. exact (C / jadd exact a (jmul exact s (of_int k)))) [0..\<lfloor>(b - a) / s\<rfloor>]"
    by (rule map_upto_from_zero[of "\<lambda>k. exact (C / jadd exact a (jmul exact s k))"])
  finally have "exactSeconds (results r) =
      sum_list (map (\<lambda>k. exact (C / jadd exact a (jmul exact s (of_int k))))
        [0..\<lfloor>(b - a) / s\<rfloor>]) * N"
    by (simp only: kahanSum_exact)
  then show "exactSeconds (results r) =
           sum_list (map (\<lambda>k. C / (a + s * of_int k)) [0..\<lfloor>(b - a) / s\<rfloor>]) * N"
    by (simp add: exact_def)
  show "approxSeconds (results r) = C * (4 * n * S / (S * S + 4 * P) + S / (2 * P)) * N"
    using computeStage_Some_approx(4)[OF cs] n bp C
    by (simp add: exact_def S_def P_def N_def a_def)
  show "errorRate (results r) =
           (approxSeconds (results r) - exactSeconds (results r)) / exactSeconds (results r) * 100"
    using computeStage_Some_approx(5)[OF cs] by (simp add: exact_def)
qed



lemma floor_step_bounds:
  fixes a b s :: rat
  assumes "0 < s" "a < b"
  defines "n \<equiv> of_int \<lfloor>(b - a) / s\<rfloor>"
  shows "0 \<le> n" and "a + n * s \<le> b" and "b < a + n * s + s" and "a \<le> a + n * s"
    and "a + n * s = b \<longleftrightarrow> (\<exists>m::int. b - a = of_int m * s)"
proof -
  have q: "0 \<le> (b - a) / s" using assms by simp
  then show n0: "0 \<le> n" by (simp add: n_def)
  have "n \<le> (b - a) / s" by (simp add: n_def)
  then have "n * s \<le> b - a" using assms(1) by (simp add: pos_le_divide_eq)
  then show le: "a + n * s \<le> b" by simp
  have "(b - a) / s < n + 1" unfolding n_def by linarith
  then have "b - a < (n + 1) * s" using assms(1) by (simp add: pos_divide_less_eq)
  then show "b < a + n * s + s" by (simp add: algebra_simps)
  show "a \<le> a + n * s" using n0 assms(1) by simp
  show "a + n * s = b \<longleftrightarrow> (\<exists>m::int. b - a = of_int m * s)"
  proof
    assume "a + n * s = b"
    then have "b - a = of_int \<lfloor>(b - a) / s\<rfloor> * s" by (simp add: n_def)
    then show "\<exists>m::int. b - a = of_int m * s" ..
  next
    assume "\<exists>m::int. b - a = of_int m * s"
    then obtain m :: int where m: "b - a = of_int m * s" ..
    with assms(1) have "(b - a) / s = of_int m" by simp
    then have "n = of_int m" by (simp add: n_def)
    with m show "a + n * s = b" by simp
  qed
qed

lemma exact_single_term:
  assumes v: "valid_input p" and c: "calculateTempoPracticeTime exact p = Inr r"
    and n: "nSteps (metadata r) = 0"
  shows "exactSeconds (results r) = timeConstantC (metadata r) / startTempo p * sets p"
    and "actualEndTempo (metadata r) = startTempo p"
    and "approxSeconds (results r) = timeConstantC (metadata r) / startTempo p * sets p"
proof -
  note er = exact_result[OF v c]
  from v have a: "0 < startTempo p" by (simp add: valid_input_def)
  from n er(1) have f: "\<lfloor>(endTempo p - startTempo p) / stepSize p\<rfloor> = 0" by simp
  show "exactSeconds (results r) = timeConstantC (metadata r) / startTempo p * sets p"
    unfolding er(4) f er(3) by (simp add: upto.simps)
  show "actualEndTempo (metadata r) = startTempo p"
    unfolding er(2) f by simp
  have "(startTempo p + startTempo p) / (2 * (startTempo p * startTempo p)) = 1 / startTempo p"
    using a by (simp add: field_simps)
  then show "approxSeconds (results r) = timeConstantC (metadata r) / startTempo p * sets p"
    unfolding er(5) f er(3) by simp
qed

section \<open>The rounding of binary64\<close>

lemma powi_nonneg: "0 \<le> k \<Longrightarrow> 2 powi k = (2::rat) ^ nat k"
  by (simp add: power_int_def)

lemma powi_neg: "0 \<le> k \<Longrightarrow> 2 powi (- k) = 1 / (2::rat) ^ nat k"
  by (simp only: power_int_minus powi_nonneg inverse_eq_divide)

lemma scale2_powi: "scale2 x e = x * 2 powi e"
proof (cases "0 \<le> e")
  case True
  then show ?thesis by (simp add: scale2_def powi_nonneg)
next
  case False
  then have "0 \<le> - e" by simp
  from powi_neg[OF this] False show ?thesis by (simp add: scale2_def)
qed

lemma floor_pow_bounds:
  fixes x :: rat
  assumes "1 \<le> x"
  shows "2 ^ nat (bitlen \<lfloor>x\<rfloor> - 1) \<le> x" and "x < 2 ^ nat (bitlen \<lfloor>x\<rfloor>)"
    and "1 \<le> bitlen \<lfloor>x\<rfloor>"
proof -
  have f: "0 < \<lfloor>x\<rfloor>" using assms by linarith
  note b = bitlen_bounds[OF f]
  from b have "(of_int (2 ^ nat (bitlen \<lfloor>x\<rfloor> - 1)) :: rat) \<le> of_int \<lfloor>x\<rfloor>"
    by (simp only: of_int_le_iff)
  also have "\<dots> \<le> x" by simp
  finally show "2 ^ nat (bitlen \<lfloor>x\<rfloor> - 1) \<le> x" by simp
  from b have "\<lfloor>x\<rfloor> + 1 \<le> 2 ^ nat (bitlen \<lfloor>x\<rfloor>)" by simp
  then have "(of_int (\<lfloor>x\<rfloor> + 1) :: rat) \<le> of_int (2 ^ nat (bitlen \<lfloor>x\<rfloor>))"
    by (simp only: of_int_le_iff)
  moreover have "x < of_int (\<lfloor>x\<rfloor> + 1)" by linarith
  ultimately show "x < 2 ^ nat (bitlen \<lfloor>x\<rfloor>)" by simp
  show "1 \<le> bitlen \<lfloor>x\<rfloor>" using f by (simp add: bitlen_alt_def)
qed

lemma powi_Suc: "2 powi (e + 1) = 2 * (2::rat) powi e"
  by (simp add: power_int_add_1)

lemma expo_bounds:
  assumes "0 < x"
  shows "2 powi (expo x) \<le> x" and "x < 2 powi (expo x + 1)"
proof -
  have "2 powi (expo x) \<le> x \<and> x < 2 powi (expo x + 1)"
  proof (cases "1 \<le> x")
    case True
    note b = floor_pow_bounds[OF True]
    have e: "expo x = bitlen \<lfloor>x\<rfloor> - 1" using True by (simp add: expo_def)
    have "2 powi (expo x) = (2::rat) ^ nat (bitlen \<lfloor>x\<rfloor> - 1)"
      using b(3) by (simp add: e powi_nonneg)
    moreover have "2 powi (expo x + 1) = (2::rat) ^ nat (bitlen \<lfloor>x\<rfloor>)"
      using b(3) by (simp add: e powi_nonneg)
    ultimately show ?thesis using b by simp
  next
    case False
    define k where "k = bitlen \<lfloor>1 / x\<rfloor>"
    define t :: rat where "t = 2 ^ nat (k - 1)"
    from False assms have i: "1 \<le> 1 / x" by simp
    note b = floor_pow_bounds[OF i, folded k_def]
    have t0: "0 < t" by (simp add: t_def)
    have "nat k = Suc (nat (k - 1))" using b(3) by simp
    then have t2: "(2::rat) ^ nat k = 2 * t" by (simp add: t_def)
    have "1 / x < 2 * t" using b(2) by (simp only: t2)
    then have lo: "1 < x * (2 * t)" using assms by (simp add: pos_divide_less_eq mult.commute)
    have "t \<le> 1 / x" using b(1) by (simp only: t_def)
    then have hi: "x * t \<le> 1" using assms by (simp add: pos_le_divide_eq mult.commute)
    have pk: "2 powi (- k) = 1 / (2 * t)"
      using powi_neg[of k] b(3) by (simp add: t2)
    have pk1: "2 powi (1 - k) = 1 / t"
      using powi_neg[of "k - 1"] b(3) by (simp add: t_def)
    show ?thesis
    proof (cases "x * t = 1")
      case True
      then have e: "expo x = 1 - k" using False by (simp add: expo_def k_def t_def Let_def)
      from True t0 have x: "x = 1 / t" by (simp add: nonzero_eq_divide_eq)
      have "2 powi (expo x) = 1 / t" by (simp only: e pk1)
      then have "2 powi (expo x) = x" by (simp only: x[symmetric])
      moreover have "2 powi (expo x + 1) = 2 * (1 / t)" by (simp only: powi_Suc e pk1)
      then have "2 powi (expo x + 1) = 2 * x" by (simp only: x[symmetric])
      ultimately show ?thesis using assms by simp
    next
      case neq: False
      then have e: "expo x = - k" using False by (simp add: expo_def k_def t_def Let_def)
      from lo t0 have "1 / (2 * t) < x" by (simp add: pos_divide_less_eq)
      then have l: "2 powi (expo x) \<le> x" by (simp only: e pk)
      from hi neq have "x * t < 1" by simp
      then have "x < 1 / t" using t0 by (simp add: pos_less_divide_eq)
      moreover have "2 powi (expo x + 1) = 1 / t"
        using t0 by (simp only: powi_Suc e pk)
      ultimately show ?thesis using l by simp
    qed
  qed
  then show "2 powi (expo x) \<le> x" and "x < 2 powi (expo x + 1)" by simp_all
qed

lemma expo_unique:
  assumes "2 powi e \<le> x" "x < 2 powi (e + 1)"
  shows "expo x = e"
proof -
  have "(0::rat) < 2 powi e" by simp
  with assms have x: "0 < x" by linarith
  note b = expo_bounds[OF x]
  have "\<not> expo x < e"
  proof
    assume "expo x < e"
    then have "expo x + 1 \<le> e" by simp
    then have "(2::rat) powi (expo x + 1) \<le> 2 powi e" by (intro power_int_increasing) simp_all
    with assms(1) b(2) show False by linarith
  qed
  moreover have "\<not> e < expo x"
  proof
    assume "e < expo x"
    then have "e + 1 \<le> expo x" by simp
    then have "(2::rat) powi (e + 1) \<le> 2 powi (expo x)" by (intro power_int_increasing) simp_all
    with assms(2) b(1) show False by linarith
  qed
  ultimately show ?thesis by linarith
qed

lemma roundEven_cases: "roundEven y = \<lfloor>y\<rfloor> \<or> roundEven y = \<lfloor>y\<rfloor> + 1"
  by (simp add: roundEven_def Let_def)

lemma roundEven_error: "\<bar>of_int (roundEven y) - y\<bar> \<le> 1 / 2"
proof -
  have f: "of_int \<lfloor>y\<rfloor> \<le> y" "y < of_int \<lfloor>y\<rfloor> + 1" by linarith+
  show ?thesis
  proof (cases "y - of_int \<lfloor>y\<rfloor> < 1 / 2")
    case True
    then have "roundEven y = \<lfloor>y\<rfloor>" by (simp add: roundEven_def Let_def)
    with True f show ?thesis by simp
  next
    case False
    show ?thesis
    proof (cases "1 / 2 < y - of_int \<lfloor>y\<rfloor>")
      case True
      with False have "roundEven y = \<lfloor>y\<rfloor> + 1" by (simp add: roundEven_def Let_def)
      with True f show ?thesis by simp
    next
      case nt: False
      with False have h: "y - of_int \<lfloor>y\<rfloor> = 1 / 2" by simp
      from roundEven_cases[of y] show ?thesis
      proof
        assume "roundEven y = \<lfloor>y\<rfloor>"
        with h show ?thesis by simp
      next
        assume "roundEven y = \<lfloor>y\<rfloor> + 1"
        with h show ?thesis by simp
      qed
    qed
  qed
qed

lemma roundEven_of_int [simp]: "roundEven (of_int m) = m"
  by (simp add: roundEven_def Let_def)

lemma roundEven_ge: "of_int m \<le> y \<Longrightarrow> m \<le> roundEven y"
proof -
  assume "of_int m \<le> y"
  then have "m \<le> \<lfloor>y\<rfloor>" by (simp add: le_floor_iff)
  with roundEven_cases[of y] show ?thesis by linarith
qed

lemma roundEven_le: "y \<le> of_int m \<Longrightarrow> roundEven y \<le> m"
proof (cases "y = of_int m")
  case True
  then show ?thesis by simp
next
  case False
  assume "y \<le> of_int m"
  with False have "y < of_int m" by simp
  then have "\<lfloor>y\<rfloor> < m" by (simp add: floor_less_iff)
  with roundEven_cases[of y] show ?thesis by linarith
qed

lemma roundEven_mono: "y \<le> z \<Longrightarrow> roundEven y \<le> roundEven z"
proof -
  assume yz: "y \<le> z"
  then have fl: "\<lfloor>y\<rfloor> \<le> \<lfloor>z\<rfloor>" by (rule floor_mono)
  show ?thesis
  proof (cases "\<lfloor>y\<rfloor> = \<lfloor>z\<rfloor>")
    case False
    with fl have "\<lfloor>y\<rfloor> + 1 \<le> \<lfloor>z\<rfloor>" by simp
    with roundEven_cases[of y] roundEven_cases[of z] show ?thesis by linarith
  next
    case True
    then have "y - of_int \<lfloor>y\<rfloor> \<le> z - of_int \<lfloor>z\<rfloor>" using yz by simp
    then show ?thesis
      unfolding roundEven_def Let_def True by (auto split: if_splits)
  qed
qed

lemma powi_cancel: "2 powi (52 - e) * 2 powi (e - 52) = (1::rat)"
proof -
  have "2 powi (52 - e) * 2 powi (e - 52) = (2::rat) powi ((52 - e) + (e - 52))"
    by (subst power_int_add) simp_all
  then show ?thesis by simp
qed

lemma powi_shift: "2 powi e * 2 powi (52 - e) = (2::rat) ^ 52"
proof -
  have "2 powi e * 2 powi (52 - e) = (2::rat) powi (e + (52 - e))"
    by (subst power_int_add) simp_all
  then show ?thesis by simp
qed

lemma powi_half: "2 powi (e - 52) / 2 = (2::rat) powi e / 2 ^ 53"
proof -
  have "(2::rat) powi e = 2 powi ((e - 52) + 52)" by simp
  also have "\<dots> = 2 powi (e - 52) * 2 powi 52" by (subst power_int_add) simp_all
  finally have "(2::rat) powi e = 2 powi (e - 52) * 2 ^ 52" by simp
  then show ?thesis by simp
qed

text \<open>The significand of a positive number: an integer of 53 bits, within a half of the scaled value.\<close>

lemma round53_significand:
  assumes "0 < x"
  defines "y \<equiv> x * 2 powi (52 - expo x)"
  shows "round53 x = of_int (roundEven y) * 2 powi (expo x - 52)"
    and "2 ^ 52 \<le> y" and "y < 2 ^ 53"
    and "2 ^ 52 \<le> roundEven y" and "roundEven y \<le> 2 ^ 53"
    and "x = y * 2 powi (expo x - 52)"
proof -
  note b = expo_bounds[OF assms(1)]
  show "round53 x = of_int (roundEven y) * 2 powi (expo x - 52)"
    by (simp add: round53_def Let_def scale2_powi y_def)
  have "2 powi (expo x) * 2 powi (52 - expo x) \<le> y"
    unfolding y_def using b(1) by (intro mult_right_mono) simp_all
  then show lo: "2 ^ 52 \<le> y" by (simp only: powi_shift)
  have "y < 2 powi (expo x + 1) * 2 powi (52 - expo x)"
    unfolding y_def using b(2) by (intro mult_strict_right_mono) simp_all
  also have "\<dots> = 2 * (2 powi (expo x) * 2 powi (52 - expo x))"
    by (simp only: powi_Suc mult.assoc)
  finally show hi: "y < 2 ^ 53" by (simp only: powi_shift) simp
  have "(of_int (2 ^ 52) :: rat) \<le> y" using lo by simp
  then show "2 ^ 52 \<le> roundEven y" by (rule roundEven_ge)
  have "y \<le> (of_int (2 ^ 53) :: rat)" using hi by simp
  then show "roundEven y \<le> 2 ^ 53" by (rule roundEven_le)
  have "y * 2 powi (expo x - 52) = x * (2 powi (52 - expo x) * 2 powi (expo x - 52))"
    by (simp add: y_def mult.assoc)
  then show "x = y * 2 powi (expo x - 52)" by (simp only: powi_cancel)
qed

lemma round53_error:
  assumes "0 < x"
  shows "\<bar>round53 x - x\<bar> \<le> x / 2 ^ 53"
proof -
  define y where "y = x * 2 powi (52 - expo x)"
  note s = round53_significand[OF assms, folded y_def]
  have "round53 x - x = (of_int (roundEven y) - y) * 2 powi (expo x - 52)"
    by (subst s(6), subst s(1)) (simp add: algebra_simps)
  then have "\<bar>round53 x - x\<bar> = \<bar>of_int (roundEven y) - y\<bar> * 2 powi (expo x - 52)"
    by (simp add: abs_mult)
  also have "\<dots> \<le> 1 / 2 * 2 powi (expo x - 52)"
    using roundEven_error[of y] by (intro mult_right_mono) simp_all
  also have "\<dots> = 2 powi (expo x) / 2 ^ 53"
    using powi_half[of "expo x"] by simp
  also have "\<dots> \<le> x / 2 ^ 53"
    using expo_bounds(1)[OF assms] by (intro divide_right_mono) simp_all
  finally show ?thesis .
qed

lemma round53_range:
  assumes "0 < x"
  shows "2 powi (expo x) \<le> round53 x" and "round53 x \<le> 2 powi (expo x + 1)"
proof -
  define y where "y = x * 2 powi (52 - expo x)"
  note s = round53_significand[OF assms, folded y_def]
  have c: "(2::rat) ^ 52 * 2 powi (expo x - 52) = 2 powi (expo x)"
  proof -
    have "(2::rat) powi (52 + (expo x - 52)) = 2 powi 52 * 2 powi (expo x - 52)"
      by (subst power_int_add) simp_all
    then show ?thesis by simp
  qed
  have "(of_int (2 ^ 52) :: rat) \<le> of_int (roundEven y)" using s(4) by (simp only: of_int_le_iff)
  then have "(2::rat) ^ 52 * 2 powi (expo x - 52) \<le> of_int (roundEven y) * 2 powi (expo x - 52)"
    by (intro mult_right_mono) simp_all
  then show "2 powi (expo x) \<le> round53 x" by (simp only: c s(1))
  have "(of_int (roundEven y) :: rat) \<le> of_int (2 ^ 53)" using s(5) by (simp only: of_int_le_iff)
  then have "of_int (roundEven y) * 2 powi (expo x - 52) \<le> (2::rat) ^ 53 * 2 powi (expo x - 52)"
    by (intro mult_right_mono) simp_all
  also have "\<dots> = 2 * ((2::rat) ^ 52 * 2 powi (expo x - 52))" by simp
  also have "\<dots> = 2 powi (expo x + 1)" by (simp only: c powi_Suc)
  finally show "round53 x \<le> 2 powi (expo x + 1)" by (simp only: s(1))
qed

lemma round53_pos: "0 < x \<Longrightarrow> 0 < round53 x"
proof -
  assume x: "0 < x"
  have "(0::rat) < 2 powi (expo x)" by simp
  with round53_range(1)[OF x] show ?thesis by linarith
qed

lemma expo_mono:
  assumes "0 < x" "x \<le> y"
  shows "expo x \<le> expo y"
proof (rule ccontr)
  assume "\<not> expo x \<le> expo y"
  then have "expo y + 1 \<le> expo x" by simp
  then have "(2::rat) powi (expo y + 1) \<le> 2 powi (expo x)" by (intro power_int_increasing) simp_all
  moreover from assms have "0 < y" by simp
  ultimately show False
    using expo_bounds(1)[OF assms(1)] expo_bounds(2)[OF \<open>0 < y\<close>] assms(2) by linarith
qed

lemma round53_mono:
  assumes "0 < x" "x \<le> y"
  shows "round53 x \<le> round53 y"
proof -
  from assms have y: "0 < y" by simp
  note sx = round53_significand[OF assms(1)] and sy = round53_significand[OF y]
  show ?thesis
  proof (cases "expo x = expo y")
    case True
    have "x * 2 powi (52 - expo y) \<le> y * 2 powi (52 - expo y)"
      using assms(2) by (intro mult_right_mono) simp_all
    then have "roundEven (x * 2 powi (52 - expo y)) \<le> roundEven (y * 2 powi (52 - expo y))"
      by (rule roundEven_mono)
    then have "(of_int (roundEven (x * 2 powi (52 - expo y))) :: rat)
        \<le> of_int (roundEven (y * 2 powi (52 - expo y)))"
      by (simp only: of_int_le_iff)
    then have "of_int (roundEven (x * 2 powi (52 - expo y))) * 2 powi (expo y - 52)
        \<le> (of_int (roundEven (y * 2 powi (52 - expo y))) :: rat) * 2 powi (expo y - 52)"
      by (intro mult_right_mono) simp_all
    then show ?thesis unfolding sx(1) sy(1) True .
  next
    case False
    with expo_mono[OF assms] have "expo x + 1 \<le> expo y" by simp
    then have "(2::rat) powi (expo x + 1) \<le> 2 powi (expo y)"
      by (intro power_int_increasing) simp_all
    with round53_range(2)[OF assms(1)] round53_range(1)[OF y] show ?thesis by linarith
  qed
qed

lemma round53_idem:
  assumes "0 < x"
  shows "round53 (round53 x) = round53 x"
proof -
  define y where "y = x * 2 powi (52 - expo x)"
  define m where "m = roundEven y"
  note s = round53_significand[OF assms, folded y_def, folded m_def]
  note r = round53_range[OF assms]
  have rp: "0 < round53 x" using assms by (rule round53_pos)
  show ?thesis
  proof (cases "round53 x = 2 powi (expo x + 1)")
    case True
    have e: "expo (round53 x) = expo x + 1"
    proof (rule expo_unique)
      show "2 powi (expo x + 1) \<le> round53 x" using True by simp
      have "(2::rat) powi (expo x + 1) < 2 powi (expo x + 1 + 1)"
        by (intro power_int_strict_increasing) simp_all
      then show "round53 x < 2 powi (expo x + 1 + 1)" using True by simp
    qed
    have "round53 x * 2 powi (52 - (expo x + 1)) = (2::rat) ^ 52"
      unfolding True by (rule powi_shift)
    then have "round53 x * 2 powi (52 - (expo x + 1)) = of_int (2 ^ 52)" by simp
    then have "roundEven (round53 x * 2 powi (52 - (expo x + 1))) = 2 ^ 52"
      by (simp only: roundEven_of_int)
    then have "round53 (round53 x) = of_int (2 ^ 52) * 2 powi (expo x + 1 - 52)"
      by (simp only: round53_significand(1)[OF rp] e)
    also have "\<dots> = 2 powi 52 * (2::rat) powi (expo x + 1 - 52)" by simp
    also have "\<dots> = 2 powi (52 + (expo x + 1 - 52))" by (subst power_int_add) simp_all
    also have "52 + (expo x + 1 - 52) = expo x + 1" by simp
    finally show ?thesis by (simp only: True)
  next
    case False
    with r(2) have lt: "round53 x < 2 powi (expo x + 1)" by simp
    from r(1) lt have e: "expo (round53 x) = expo x" by (rule expo_unique)
    have "round53 x * 2 powi (52 - expo x) = of_int m * (2 powi (expo x - 52) * 2 powi (52 - expo x))"
      by (simp only: s(1) mult.assoc)
    also have "\<dots> = of_int m" by (simp only: powi_cancel[of "expo x"] mult.commute[of "2 powi (expo x - 52)"] mult_1_right)
    finally have re: "roundEven (round53 x * 2 powi (52 - expo x)) = m"
      by (simp only: roundEven_of_int)
    have "round53 (round53 x) =
        of_int (roundEven (round53 x * 2 powi (52 - expo (round53 x))))
          * 2 powi (expo (round53 x) - 52)"
      by (rule round53_significand(1)[OF rp])
    also have "\<dots> = of_int m * 2 powi (expo x - 52)" by (simp only: e re)
    also have "\<dots> = round53 x" by (rule s(1)[symmetric])
    finally show ?thesis .
  qed
qed

lemma faithful_exact: "faithful exact"
  by (simp add: faithful_def exact_def mono_def)

lemma binary64_error: "\<bar>binary64 x - x\<bar> \<le> \<bar>x\<bar> / 2 ^ 53"
proof (cases "0 < x")
  case True
  with round53_error[OF True] show ?thesis by (simp add: binary64_def)
next
  case False
  show ?thesis
  proof (cases "x = 0")
    case True
    then show ?thesis by (simp add: binary64_def)
  next
    case nz: False
    with False have n: "0 < - x" by simp
    have "\<bar>binary64 x - x\<bar> = \<bar>round53 (- x) - (- x)\<bar>"
      using False nz by (simp add: binary64_def abs_minus_commute)
    also have "\<dots> \<le> - x / 2 ^ 53" using round53_error[OF n] by simp
    finally show ?thesis using n by simp
  qed
qed

lemma binary64_sign:
  "0 < x \<Longrightarrow> 0 < binary64 x" "x < 0 \<Longrightarrow> binary64 x < 0" "binary64 0 = 0"
proof -
  show "0 < x \<Longrightarrow> 0 < binary64 x" by (simp add: binary64_def round53_pos)
  show "x < 0 \<Longrightarrow> binary64 x < 0"
  proof -
    assume "x < 0"
    then have "0 < - x" by simp
    from round53_pos[OF this] \<open>x < 0\<close> show ?thesis by (simp add: binary64_def)
  qed
  show "binary64 0 = 0" by (simp add: binary64_def)
qed

lemma binary64_mono: "x \<le> y \<Longrightarrow> binary64 x \<le> binary64 y"
proof -
  assume xy: "x \<le> y"
  consider "0 < x" | "x = 0" | "x < 0" "y < 0" | "x < 0" "0 \<le> y" by linarith
  then show ?thesis
  proof cases
    case 1
    with xy have "0 < y" by simp
    with 1 round53_mono[OF 1 xy] show ?thesis by (simp add: binary64_def)
  next
    case 2
    show ?thesis
    proof (cases "y = 0")
      case True
      with 2 show ?thesis by simp
    next
      case False
      with 2 xy have "0 < y" by simp
      from binary64_sign(1)[OF this] 2 show ?thesis by (simp add: binary64_sign(3))
    qed
  next
    case 3
    then have "0 < - y" "- y \<le> - x" using xy by simp_all
    from round53_mono[OF this] 3 show ?thesis by (simp add: binary64_def)
  next
    case 4
    have "binary64 x < 0" using 4(1) by (rule binary64_sign(2))
    moreover have "0 \<le> binary64 y"
    proof (cases "y = 0")
      case True
      then show ?thesis by (simp add: binary64_sign(3))
    next
      case False
      with 4(2) have "0 < y" by simp
      from binary64_sign(1)[OF this] show ?thesis by simp
    qed
    ultimately show ?thesis by simp
  qed
qed

lemma binary64_idem: "binary64 (binary64 x) = binary64 x"
proof -
  consider "0 < x" | "x = 0" | "x < 0" by linarith
  then show ?thesis
  proof cases
    case 1
    then have "0 < round53 x" by (rule round53_pos)
    with 1 round53_idem[OF 1] show ?thesis by (simp add: binary64_def)
  next
    case 2
    then show ?thesis by (simp add: binary64_def)
  next
    case 3
    then have n: "0 < - x" by simp
    then have p: "0 < round53 (- x)" by (rule round53_pos)
    with 3 round53_idem[OF n] show ?thesis by (simp add: binary64_def)
  qed
qed

lemma faithful_binary64: "faithful binary64"
  unfolding faithful_def mono_def
  using binary64_error binary64_mono binary64_idem by blast

text \<open>What a faithful rounding keeps.\<close>

lemma faithful_zero: "faithful rnd \<Longrightarrow> rnd 0 = 0"
proof -
  assume "faithful rnd"
  then have "\<bar>rnd 0 - 0\<bar> \<le> \<bar>0\<bar> / 2 ^ 53" unfolding faithful_def by blast
  then show ?thesis by simp
qed

lemma faithful_bounds:
  assumes "faithful rnd" "0 \<le> x"
  shows "x * (1 - 1 / 2 ^ 53) \<le> rnd x" and "rnd x \<le> x * (1 + 1 / 2 ^ 53)"
proof -
  define d where "d = x / 2 ^ 53"
  from assms(1) have "\<bar>rnd x - x\<bar> \<le> \<bar>x\<bar> / 2 ^ 53" unfolding faithful_def by blast
  with assms(2) have "\<bar>rnd x - x\<bar> \<le> d" by (simp add: d_def)
  then have e: "rnd x - x \<le> d" "- (rnd x - x) \<le> d" by (simp_all only: abs_le_iff)
  have "x * (1 - 1 / 2 ^ 53) = x - d" "x * (1 + 1 / 2 ^ 53) = x + d"
    by (simp_all add: d_def algebra_simps)
  with e show "x * (1 - 1 / 2 ^ 53) \<le> rnd x" and "rnd x \<le> x * (1 + 1 / 2 ^ 53)"
    by simp_all
qed

lemma faithful_pos: "faithful rnd \<Longrightarrow> 0 < x \<Longrightarrow> 0 < rnd x"
proof -
  assume f: "faithful rnd" and x: "0 < x"
  have "0 < x * (1 - 1 / 2 ^ 53)" using x by (intro mult_pos_pos) simp_all
  with faithful_bounds(1)[OF f less_imp_le[OF x]] show ?thesis by linarith
qed

lemma faithful_nonneg: "faithful rnd \<Longrightarrow> 0 \<le> x \<Longrightarrow> 0 \<le> rnd x"
  using faithful_pos[of rnd x] faithful_zero[of rnd] by (cases "x = 0") (simp_all add: less_imp_le)

lemma faithful_neg: "faithful rnd \<Longrightarrow> x < 0 \<Longrightarrow> rnd x < 0"
proof -
  assume f: "faithful rnd" and x: "x < 0"
  define d where "d = - x / 2 ^ 53"
  from f have "\<bar>rnd x - x\<bar> \<le> \<bar>x\<bar> / 2 ^ 53" unfolding faithful_def by blast
  with x have "\<bar>rnd x - x\<bar> \<le> d" by (simp add: d_def)
  then have e: "rnd x - x \<le> d" by (simp only: abs_le_iff)
  have "x + d = x * (1 - 1 / 2 ^ 53)" by (simp add: d_def algebra_simps)
  moreover have "x * (1 - 1 / 2 ^ 53) < 0" using x by (intro mult_neg_pos) simp_all
  ultimately have "x + d < 0" by simp
  with e show ?thesis by simp
qed

lemma faithful_mono: "faithful rnd \<Longrightarrow> x \<le> y \<Longrightarrow> rnd x \<le> rnd y"
  unfolding faithful_def mono_def by blast

lemma faithful_idem: "faithful rnd \<Longrightarrow> rnd (rnd x) = rnd x"
  unfolding faithful_def by blast

lemma faithful_error: "faithful rnd \<Longrightarrow> \<bar>rnd x - x\<bar> \<le> \<bar>x\<bar> / 2 ^ 53"
  unfolding faithful_def by blast

text \<open>A coarse form of the error bound, enough for what follows.\<close>

lemma faithful_within:
  assumes f: "faithful rnd" and lo: "- B \<le> x" and hi: "x \<le> B"
  shows "x - B / 64 \<le> rnd x" and "rnd x \<le> x + B / 64"
proof -
  from lo hi have xb: "\<bar>x\<bar> \<le> B" by (simp add: abs_le_iff)
  then have b0: "0 \<le> B" by simp
  have "\<bar>x\<bar> / 2 ^ 53 \<le> B / 2 ^ 53" using xb by (intro divide_right_mono) simp_all
  also have "\<dots> \<le> B / 64" using b0 by (intro divide_left_mono) simp_all
  finally have "\<bar>rnd x - x\<bar> \<le> B / 64" using faithful_error[OF f, of x] by simp
  then have "rnd x - x \<le> B / 64" "- (rnd x - x) \<le> B / 64" by (simp_all only: abs_le_iff)
  then show "x - B / 64 \<le> rnd x" and "rnd x \<le> x + B / 64" by simp_all
qed

lemma compensatedStep_pos:
  assumes f: "faithful rnd" and s: "0 < s" and c: "\<bar>c\<bar> \<le> s / 4" and v: "0 < v"
  defines "y \<equiv> rnd (v - c)"
  defines "t \<equiv> rnd (s + y)"
  defines "c' \<equiv> rnd (rnd (t - s) - y)"
  shows "0 < t" and "\<bar>c'\<bar> \<le> t / 4"
proof -
  define w where "w = s + y"
  define r where "r = rnd (t - s)"
  have tw: "t = rnd w" by (simp only: t_def w_def)
  have cr: "c' = rnd (r - y)" by (simp only: c'_def r_def)
  from c have c2: "c \<le> s / 4" "- c \<le> s / 4" by (simp_all only: abs_le_iff)
  have ylo: "- (s / 2) \<le> y"
  proof (cases "0 \<le> v - c")
    case True
    with f have "0 \<le> y" unfolding y_def by (rule faithful_nonneg[of rnd "v - c"])
    with s show ?thesis by linarith
  next
    case False
    from False v c2 have z: "- (s / 4) \<le> v - c" "v - c \<le> s / 4" by linarith+
    from faithful_within(1)[OF f z] have "v - c - s / 4 / 64 \<le> y" by (simp only: y_def)
    with z(1) s show ?thesis by linarith
  qed
  have w: "s / 2 \<le> w" unfolding w_def using ylo by linarith
  with s have w0: "0 < w" by linarith
  have yw: "- w \<le> y" "y \<le> w" unfolding w_def using ylo s by linarith+
  have ww: "- w \<le> w" "w \<le> w" using w0 by linarith+
  from faithful_within[OF f ww]
  have t: "w - w / 64 \<le> t" "t \<le> w + w / 64" by (simp_all only: tw)
  from t(1) w0 show t0: "0 < t" by linarith
  have tsy: "t - s = y + (t - w)" unfolding w_def by linarith
  have ts: "- (2 * w) \<le> t - s" "t - s \<le> 2 * w" using t yw w0 tsy by linarith+
  from faithful_within[OF f ts]
  have r: "t - s - 2 * w / 64 \<le> r" "r \<le> t - s + 2 * w / 64" by (simp_all only: r_def)
  have ry: "- (3 * w / 64) \<le> r - y" "r - y \<le> 3 * w / 64" using r t tsy by linarith+
  from faithful_within[OF f ry]
  have c3: "r - y - 3 * w / 64 / 64 \<le> c'" "c' \<le> r - y + 3 * w / 64 / 64"
    by (simp_all only: cr)
  from c3 ry w0 have "- (w / 8) \<le> c'" "c' \<le> w / 8" by linarith+
  with t(1) w0 have "c' \<le> t / 4" "- c' \<le> t / 4" by linarith+
  then show "\<bar>c'\<bar> \<le> t / 4" by (simp only: abs_le_iff)
qed

lemma compensated_fold_pos:
  assumes f: "faithful rnd"
  shows "0 < s \<Longrightarrow> \<bar>c\<bar> \<le> s / 4 \<Longrightarrow> \<forall>v \<in> set vs. 0 < v \<Longrightarrow>
    0 < fst (foldl (compensatedStep rnd) (s, c) vs)"
proof (induction vs arbitrary: s c)
  case Nil
  then show ?case by simp
next
  case (Cons v vs)
  from Cons.prems(3) have v: "0 < v" and vs: "\<forall>v \<in> set vs. 0 < v" by simp_all
  note st = compensatedStep_pos[OF f Cons.prems(1,2) v]
  show ?case
    unfolding foldl_Cons compensatedStep_pair jadd_def jsub_def
    using st vs by (intro Cons.IH) simp_all
qed

lemma compensatedSum_pos:
  assumes f: "faithful rnd" and ne: "vs \<noteq> []" and pos: "\<forall>v \<in> set vs. 0 < v"
  shows "0 < compensatedSum rnd vs"
proof -
  from ne obtain v vs' where vs: "vs = v # vs'" by (cases vs) auto
  with pos have v: "0 < v" and vs': "\<forall>v \<in> set vs'. 0 < v" by simp_all
  have first: "compensatedStep rnd (0, 0) v = (rnd v, 0)"
    by (simp add: compensatedStep_pair jadd_def jsub_def faithful_idem[OF f] faithful_zero[OF f])
  have "0 < rnd v" using f v by (rule faithful_pos[of rnd v])
  then have "0 < fst (foldl (compensatedStep rnd) (rnd v, 0) vs')"
    using vs' by (intro compensated_fold_pos[OF f]) simp_all
  then show ?thesis by (simp add: compensatedSum_def vs first)
qed

text \<open>On normal numbers and above, the rounding with underflow is that of binary64.\<close>

lemma ieee64_normal: "1 / 2 ^ 1022 \<le> \<bar>x\<bar> \<Longrightarrow> ieee64 x = binary64 x"
  by (simp add: ieee64_def)

section \<open>Faithful roundings in the engine\<close>

text \<open>
  What the engine computes from a valid input under a faithful rounding: the sign of every
  intermediate quantity is that of its exact counterpart.
\<close>

lemma faithful_ops_pos:
  assumes "faithful rnd"
  shows "0 < x \<Longrightarrow> 0 < y \<Longrightarrow> 0 < jmul rnd x y"
    and "0 \<le> x \<Longrightarrow> 0 \<le> y \<Longrightarrow> 0 \<le> jmul rnd x y"
    and "0 < x \<Longrightarrow> 0 \<le> y \<Longrightarrow> 0 < jadd rnd x y"
    and "x < y \<Longrightarrow> 0 < jsub rnd y x"
    and "0 < x \<Longrightarrow> 0 < y \<Longrightarrow> 0 < rnd (x / y)"
proof -
  show "0 < x \<Longrightarrow> 0 < y \<Longrightarrow> 0 < jmul rnd x y"
    unfolding jmul_def using assms by (intro faithful_pos[of rnd "x * y"]) simp_all
  show "0 \<le> x \<Longrightarrow> 0 \<le> y \<Longrightarrow> 0 \<le> jmul rnd x y"
    unfolding jmul_def using assms by (intro faithful_nonneg[of rnd "x * y"]) simp_all
  show "0 < x \<Longrightarrow> 0 \<le> y \<Longrightarrow> 0 < jadd rnd x y"
    unfolding jadd_def using assms by (intro faithful_pos[of rnd "x + y"]) simp_all
  show "x < y \<Longrightarrow> 0 < jsub rnd y x"
    unfolding jsub_def using assms by (intro faithful_pos[of rnd "y - x"]) simp_all
  show "0 < x \<Longrightarrow> 0 < y \<Longrightarrow> 0 < rnd (x / y)"
    using assms by (intro faithful_pos[of rnd "x / y"]) simp_all
qed

text \<open>Under a faithful rounding a valid input never meets a zero denominator.\<close>

lemma faithful_quantities:
  assumes f: "faithful rnd" and v: "valid_input p"
  defines "a \<equiv> startTempo p" and "s \<equiv> stepSize p"
  defines "C \<equiv> jmul rnd 60 (jmul rnd (beatsPerPhrase p) (repetitions p))"
  defines "n \<equiv> jfloor (rnd (jsub rnd (endTempo p) a / s))"
  defines "bPrime \<equiv> jadd rnd a (jmul rnd n s)"
  defines "S \<equiv> jadd rnd a bPrime" and "P \<equiv> jmul rnd a bPrime"
  shows "0 < C" and "0 \<le> n" and "0 < bPrime" and "0 < S" and "0 < P"
    and "0 < jadd rnd (jmul rnd S S) (jmul rnd 4 P)" and "0 < jmul rnd 2 P"
    and "\<And>k. 0 < jadd rnd a (jmul rnd s (of_nat k))"
proof -
  note o = faithful_ops_pos[OF f]
  from v have pos: "0 < a" "a < endTempo p" "0 < s" "0 < beatsPerPhrase p" "0 < repetitions p"
    by (simp_all add: valid_input_def a_def s_def)
  show "0 < C" unfolding C_def using pos by (intro o(1)) simp_all
  have "0 < rnd (jsub rnd (endTempo p) a / s)" using pos by (intro o(5) o(4))
  then show n0: "0 \<le> n" by (simp add: n_def jfloor_def)
  show bp: "0 < bPrime" unfolding bPrime_def using pos n0 by (intro o(3) o(2)) simp_all
  show S: "0 < S" unfolding S_def using pos bp by (intro o(3)) simp_all
  show P: "0 < P" unfolding P_def using pos bp by (intro o(1))
  have "0 < jmul rnd S S" using S by (intro o(1))
  moreover have "0 \<le> jmul rnd 4 P" using P by (intro o(2)) simp_all
  ultimately show "0 < jadd rnd (jmul rnd S S) (jmul rnd 4 P)" by (intro o(3))
  show "0 < jmul rnd 2 P" using P by (intro o(1)) simp_all
  show "0 < jadd rnd a (jmul rnd s (of_nat k))" for k
    using pos by (intro o(3) o(2)) simp_all
qed

lemma computeStage_faithful_returns:
  assumes f: "faithful rnd" and v: "valid_input p"
  shows "\<exists>r. computeStage rnd p = Some r \<and> 0 < exactSeconds (results r)"
proof -
  define a where "a = startTempo p"
  define s where "s = stepSize p"
  define N where "N = sets p"
  define C where "C = jmul rnd 60 (jmul rnd (beatsPerPhrase p) (repetitions p))"
  define n where "n = jfloor (rnd (jsub rnd (endTempo p) a / s))"
  define bPrime where "bPrime = jadd rnd a (jmul rnd n s)"
  define S where "S = jadd rnd a bPrime"
  define P where "P = jmul rnd a bPrime"
  note q = faithful_quantities[OF f v, folded a_def s_def, folded C_def n_def,
      folded bPrime_def, folded S_def P_def]
  note o = faithful_ops_pos[OF f]
  from v have pos: "0 < s" "0 < N" by (simp_all add: valid_input_def s_def N_def)
  have "\<forall>j. 0 \<le> j \<and> of_nat j \<le> n \<longrightarrow> jadd rnd a (jmul rnd s (of_nat j)) \<noteq> 0"
    using q(8) by (simp add: less_imp_neq[THEN not_sym])
  from stepTimesLoop_returns[OF this] obtain ys where
    ys: "stepTimesLoop rnd C a s n 0 [] = Some ys" by blast
  define m where "m = nat (\<lfloor>n\<rfloor> + 1)"
  from stepTimesLoop_Some[OF ys] have ysv:
    "ys = map (\<lambda>j. rnd (C / jadd rnd a (jmul rnd s (of_nat j)))) [0 ..< m]"
    by (simp add: m_def)
  have "0 \<le> \<lfloor>n\<rfloor>" using q(2) by simp
  then have "0 < m" unfolding m_def by linarith
  then have ne: "ys \<noteq> []" by (simp add: ysv)
  have "\<forall>x \<in> set ys. 0 < x"
  proof
    fix x assume "x \<in> set ys"
    then obtain j where "x = rnd (C / jadd rnd a (jmul rnd s (of_nat j)))"
      by (auto simp: ysv)
    with q(1) q(8)[of j] show "0 < x" by (simp add: o(5))
  qed
  with f ne have "0 < compensatedSum rnd ys" by (rule compensatedSum_pos)
  then have "0 < kahanSum rnd ys" by (simp only: kahanSum_compensated)
  with pos(2) have tot: "0 < jmul rnd (kahanSum rnd ys) N" by (intro o(1))
  have s0: "s \<noteq> 0" using pos by simp
  have den: "jadd rnd (jmul rnd S S) (jmul rnd 4 P) \<noteq> 0" "jmul rnd 2 P \<noteq> 0"
    using q(6,7) by simp_all
  show ?thesis
    using s0 ys tot den
    by (simp add: computeStage_def Let_def jdiv_def a_def[symmetric] s_def[symmetric]
        N_def[symmetric] C_def[symmetric] n_def[symmetric] bPrime_def[symmetric]
        S_def[symmetric] P_def[symmetric])
qed

lemma faithful_returns:
  "faithful rnd \<Longrightarrow> valid_input p \<Longrightarrow> \<exists>r. calculateTempoPracticeTime rnd p = Inr r"
  using computeStage_faithful_returns[of rnd p] by (auto simp: calc_Inr_iff)

lemma faithful_sign: "faithful rnd \<Longrightarrow> 0 < rnd x \<longleftrightarrow> 0 < x"
proof -
  assume f: "faithful rnd"
  consider "0 < x" | "x = 0" | "x < 0" by linarith
  then show ?thesis
  proof cases
    case 1
    with faithful_pos[OF f 1] show ?thesis by simp
  next
    case 2
    with faithful_zero[OF f] show ?thesis by simp
  next
    case 3
    with faithful_neg[OF f 3] show ?thesis by simp
  qed
qed

text \<open>The sign of the error rate under a faithful rounding.\<close>

lemma faithful_errorRate_sign:
  assumes f: "faithful rnd" and c: "computeStage rnd p = Some r"
    and e: "0 < exactSeconds (results r)"
  shows "0 < errorRate (results r) \<longleftrightarrow> exactSeconds (results r) < approxSeconds (results r)"
proof -
  define ex where "ex = exactSeconds (results r)"
  define ap where "ap = approxSeconds (results r)"
  have "errorRate (results r) = rnd (rnd (rnd (ap - ex) / ex) * 100)"
    using computeStage_Some_approx(5)[OF c] by (simp add: jmul_def jsub_def ex_def ap_def)
  then have "0 < errorRate (results r) \<longleftrightarrow> 0 < rnd (rnd (ap - ex) / ex) * 100"
    by (simp only: faithful_sign[OF f])
  also have "\<dots> \<longleftrightarrow> 0 < rnd (rnd (ap - ex) / ex)" by simp
  also have "\<dots> \<longleftrightarrow> 0 < rnd (ap - ex) / ex" by (simp only: faithful_sign[OF f])
  also have "\<dots> \<longleftrightarrow> 0 < rnd (ap - ex)" using e by (simp add: ex_def zero_less_divide_iff)
  also have "\<dots> \<longleftrightarrow> 0 < ap - ex" by (simp only: faithful_sign[OF f])
  finally show ?thesis by (simp add: ex_def ap_def)
qed

section \<open>Evaluation on concrete inputs\<close>

text \<open>
  The simplifier evaluates the engine on numerals. A \<open>let\<close>, a monadic bind and a
  \<open>case\<close> get their argument evaluated before the body is entered (the weak congruence
  rules), so that each intermediate value is computed once.
\<close>

lemma Let_weak_cong: "a = b \<Longrightarrow> Let a f = Let b f"
  by simp

lemma bind_weak_cong: "x = y \<Longrightarrow> Option.bind x f = Option.bind y f"
  by simp

lemma bitlen_numeral_simps:
  "bitlen 1 = 1"
  "bitlen (numeral Num.One) = 1"
  "bitlen (numeral (Num.Bit0 n)) = bitlen (numeral n) + 1"
  "bitlen (numeral (Num.Bit1 n)) = bitlen (numeral n) + 1"
proof -
  show "bitlen 1 = 1" by (subst compute_bitlen) simp
  then show "bitlen (numeral Num.One) = 1" by simp
  show "bitlen (numeral (Num.Bit0 n)) = bitlen (numeral n) + 1"
    by (subst compute_bitlen) simp
  show "bitlen (numeral (Num.Bit1 n)) = bitlen (numeral n) + 1"
    by (subst compute_bitlen) simp
qed

lemma floor_numeral_quotient:
  "\<lfloor>(numeral a :: rat) / numeral b\<rfloor> = numeral a div numeral b"
  "\<lfloor>(1 :: rat) / numeral b\<rfloor> = 1 div numeral b"
  using floor_divide_of_int_eq[of "numeral a" "numeral b", where ?'a = rat]
    floor_divide_of_int_eq[of 1 "numeral b", where ?'a = rat]
  by simp_all

lemmas rounding_eval = binary64_def round53_def expo_def scale2_def roundEven_def exact_def
  bitlen_numeral_simps floor_numeral_quotient Let_def

lemmas engine_eval = calculateTempoPracticeTime_def validate_def computeStage_def
  jadd_def jsub_def jmul_def jdiv_def jfloor_def kahanSum_def kahanLoop.simps
  stepTimesLoop.simps rounding_eval

lemma scenario_binary64:
  "calculateTempoPracticeTime binary64 scenarioInput = Inr scenarioResult64"
  by (simp add: engine_eval scenarioInput_def scenarioResult64_def
      cong: Let_weak_cong bind_weak_cong option.case_cong_weak)

lemma scenario_valid: "valid_input scenarioInput"
  by (simp add: valid_input_def scenarioInput_def)

lemma scenario_exact:
  "calculateTempoPracticeTime exact scenarioInput = Inr scenarioResultExact"
  by (simp add: engine_eval scenarioInput_def scenarioResultExact_def
      cong: Let_weak_cong bind_weak_cong option.case_cong_weak)

lemma boundary_exact:
  "calculateTempoPracticeTime exact boundaryInput = Inr boundaryResultExact"
  by (simp add: engine_eval boundaryInput_def boundaryResultExact_def
      cong: Let_weak_cong bind_weak_cong option.case_cong_weak)

lemma zeroStep_exact:
  "calculateTempoPracticeTime exact zeroStepInput = Inr zeroStepResultExact"
  by (simp add: engine_eval zeroStepInput_def zeroStepResultExact_def
      cong: Let_weak_cong bind_weak_cong option.case_cong_weak)

lemma boundary_valid: "valid_input boundaryInput"
  by (simp add: valid_input_def boundaryInput_def)

lemma zeroStep_valid: "valid_input zeroStepInput"
  by (simp add: valid_input_def zeroStepInput_def)

lemma scenario_fields:
  "startTempo scenarioInput = 60" "endTempo scenarioInput = 120" "stepSize scenarioInput = 10"
  "beatsPerPhrase scenarioInput = 4" "repetitions scenarioInput = 2" "sets scenarioInput = 3"
  by (simp_all add: scenarioInput_def)

lemma scenario_steps64:
  "jmul binary64 60 (jmul binary64 4 2) = 480"
  "\<lfloor>binary64 (jsub binary64 120 60 / 10)\<rfloor> = 6"
  "jfloor (binary64 (jsub binary64 120 60 / 10)) = 6"
  "jadd binary64 60 (jmul binary64 6 10) = 120"
  "jadd binary64 60 120 = 180"
  "jmul binary64 60 120 = 7200"
  by (simp_all add: jadd_def jsub_def jmul_def jfloor_def rounding_eval)

section \<open>The exact total\<close>

text \<open>
  Claim C1. For every valid input, \<open>exactSeconds\<close> is \<open>N\<close> times the compensated sum of
  the values \<open>C / (a + s * k)\<close> for \<open>k\<close> from 0 to \<open>n\<close> inclusive, with
  \<open>C = 60 * (B * R)\<close> and \<open>n = floor ((b - a) / s)\<close>, every operation being the
  engine's own (rounded by \<open>rnd\<close>). The sum is \<open>compensatedSum\<close>, the summation of the
  specification's words: it carries a compensation term, subtracts it from each new value
  before adding, and recomputes it as the residual lost in the addition. This holds for
  every rounding, whenever the engine returns a result; under a faithful rounding (exact
  arithmetic, binary64) it always returns one. Compensated summation is not naive
  accumulation: under binary64 the two differ on the list \<open>[1, 2 ^ -53, 2 ^ -53]\<close>.
\<close>

theorem exactSeconds_is_compensated_sum:
  assumes "valid_input p"
  shows "(\<forall>rnd. faithful rnd \<longrightarrow> (\<exists>r. calculateTempoPracticeTime rnd p = Inr r)) \<and>
    (\<forall>rnd r. calculateTempoPracticeTime rnd p = Inr r \<longrightarrow>
       (let a = startTempo p; s = stepSize p;
            C = jmul rnd 60 (jmul rnd (beatsPerPhrase p) (repetitions p));
            n = \<lfloor>rnd (jsub rnd (endTempo p) a / s)\<rfloor>
        in exactSeconds (results r) =
             jmul rnd
               (compensatedSum rnd
                 (map (\<lambda>k. rnd (C / jadd rnd a (jmul rnd s (of_int k)))) [0..n]))
               (sets p))) \<and>
    (\<exists>vs. compensatedSum binary64 vs \<noteq> naiveSum binary64 vs)"
proof (intro conjI allI impI)
  fix rnd :: rounding
  assume "faithful rnd"
  then show "\<exists>r. calculateTempoPracticeTime rnd p = Inr r"
    using assms by (rule faithful_returns)
next
  fix rnd r
  assume "calculateTempoPracticeTime rnd p = Inr r"
  then have c: "computeStage rnd p = Some r" by (simp add: calc_Inr_iff)
  show "let a = startTempo p; s = stepSize p;
            C = jmul rnd 60 (jmul rnd (beatsPerPhrase p) (repetitions p));
            n = \<lfloor>rnd (jsub rnd (endTempo p) a / s)\<rfloor>
        in exactSeconds (results r) =
             jmul rnd
               (compensatedSum rnd
                 (map (\<lambda>k. rnd (C / jadd rnd a (jmul rnd s (of_int k)))) [0..n]))
               (sets p)"
    unfolding Let_def
    by (simp only: computeStage_Some(8)[OF c] computeStage_Some(4)[OF c]
        computeStage_Some(5)[OF c] kahanSum_compensated
        map_upto_from_zero[of "\<lambda>k. rnd (jmul rnd 60 (jmul rnd (beatsPerPhrase p) (repetitions p))
          / jadd rnd (startTempo p) (jmul rnd (stepSize p) k))"])
next
  have "compensatedSum binary64 [1, 1 / 2 ^ 53, 1 / 2 ^ 53]
      \<noteq> naiveSum binary64 [1, 1 / 2 ^ 53, 1 / 2 ^ 53]"
    by (simp add: compensatedSum_def naiveSum_def compensatedStep_pair jadd_def jsub_def
        rounding_eval)
  then show "\<exists>vs. compensatedSum binary64 vs \<noteq> naiveSum binary64 vs" ..
qed

text \<open>The scenario of the specification, under binary64: \<open>C = 480\<close>, \<open>n = 6\<close>.\<close>

theorem exactSeconds_is_compensated_sum_witness:
  "valid_input scenarioInput \<and> faithful binary64 \<and>
   calculateTempoPracticeTime binary64 scenarioInput = Inr scenarioResult64 \<and>
   exactSeconds (results scenarioResult64) =
     jmul binary64
       (compensatedSum binary64
         (map (\<lambda>k. binary64 (480 / jadd binary64 60 (jmul binary64 10 (of_int k)))) [0..6]))
       3"
proof -
  note t = exactSeconds_is_compensated_sum[OF scenario_valid]
  from t faithful_binary64 obtain r where r: "calculateTempoPracticeTime binary64 scenarioInput = Inr r"
    by blast
  from t r
  have "let a = startTempo scenarioInput; s = stepSize scenarioInput;
            C = jmul binary64 60
                  (jmul binary64 (beatsPerPhrase scenarioInput) (repetitions scenarioInput));
            n = \<lfloor>binary64 (jsub binary64 (endTempo scenarioInput) a / s)\<rfloor>
        in exactSeconds (results r) =
             jmul binary64
               (compensatedSum binary64
                 (map (\<lambda>k. binary64 (C / jadd binary64 a (jmul binary64 s (of_int k)))) [0..n]))
               (sets scenarioInput)"
    by blast
  then have "exactSeconds (results r) =
     jmul binary64
       (compensatedSum binary64
         (map (\<lambda>k. binary64 (480 / jadd binary64 60 (jmul binary64 10 (of_int k)))) [0..6]))
       3"
    unfolding Let_def scenario_fields scenario_steps64 .
  moreover from r scenario_binary64 have "r = scenarioResult64" by simp
  ultimately show ?thesis
    using scenario_valid faithful_binary64 scenario_binary64 by blast
qed

section \<open>The approximate total\<close>

text \<open>
  Claim C2. For every valid input, \<open>approxSeconds\<close> is \<open>C * (mainTerm + correctionTerm) * N\<close>
  with \<open>S = a + b'\<close>, \<open>P = a * b'\<close>, \<open>mainTerm = (4 * n * S) / (S * S + 4 * P)\<close> and
  \<open>correctionTerm = S / (2 * P)\<close>, where \<open>b' = a + n * s\<close> is the actual end tempo; both
  denominators are non-zero. The right-hand side is a closed expression of a fixed number
  of operations, in which \<open>n\<close> occurs as a factor only: there is no loop over \<open>n\<close>. This
  holds for every rounding, whenever the engine returns a result; under a faithful rounding
  it always returns one.
\<close>

theorem approxSeconds_closed_form:
  assumes "valid_input p"
  shows "(\<forall>rnd. faithful rnd \<longrightarrow> (\<exists>r. calculateTempoPracticeTime rnd p = Inr r)) \<and>
    (\<forall>rnd r. calculateTempoPracticeTime rnd p = Inr r \<longrightarrow>
       (let a = startTempo p;
            C = jmul rnd 60 (jmul rnd (beatsPerPhrase p) (repetitions p));
            n = jfloor (rnd (jsub rnd (endTempo p) a / stepSize p));
            bPrime = jadd rnd a (jmul rnd n (stepSize p));
            S = jadd rnd a bPrime;
            P = jmul rnd a bPrime;
            mainTerm = rnd (jmul rnd (jmul rnd 4 n) S / jadd rnd (jmul rnd S S) (jmul rnd 4 P));
            correctionTerm = rnd (S / jmul rnd 2 P)
        in jadd rnd (jmul rnd S S) (jmul rnd 4 P) \<noteq> 0 \<and> jmul rnd 2 P \<noteq> 0 \<and>
           approxSeconds (results r) =
             jmul rnd (jmul rnd C (jadd rnd mainTerm correctionTerm)) (sets p)))"
proof (intro conjI allI impI)
  fix rnd :: rounding
  assume "faithful rnd"
  then show "\<exists>r. calculateTempoPracticeTime rnd p = Inr r"
    using assms by (rule faithful_returns)
next
  fix rnd r
  assume "calculateTempoPracticeTime rnd p = Inr r"
  then have c: "computeStage rnd p = Some r" by (simp add: calc_Inr_iff)
  note s = computeStage_Some[OF c] and a = computeStage_Some_approx[OF c]
  show "let a = startTempo p;
            C = jmul rnd 60 (jmul rnd (beatsPerPhrase p) (repetitions p));
            n = jfloor (rnd (jsub rnd (endTempo p) a / stepSize p));
            bPrime = jadd rnd a (jmul rnd n (stepSize p));
            S = jadd rnd a bPrime;
            P = jmul rnd a bPrime;
            mainTerm = rnd (jmul rnd (jmul rnd 4 n) S / jadd rnd (jmul rnd S S) (jmul rnd 4 P));
            correctionTerm = rnd (S / jmul rnd 2 P)
        in jadd rnd (jmul rnd S S) (jmul rnd 4 P) \<noteq> 0 \<and> jmul rnd 2 P \<noteq> 0 \<and>
           approxSeconds (results r) =
             jmul rnd (jmul rnd C (jadd rnd mainTerm correctionTerm)) (sets p)"
    unfolding Let_def using a(1,2,4) unfolding s(4,5,6) by blast
qed

text \<open>The scenario under binary64: \<open>S = 180\<close>, \<open>P = 7200\<close>.\<close>

theorem approxSeconds_closed_form_witness:
  "valid_input scenarioInput \<and> faithful binary64 \<and>
   calculateTempoPracticeTime binary64 scenarioInput = Inr scenarioResult64 \<and>
   jadd binary64 (jmul binary64 180 180) (jmul binary64 4 7200) \<noteq> 0 \<and>
   jmul binary64 2 7200 \<noteq> 0 \<and>
   approxSeconds (results scenarioResult64) =
     jmul binary64
       (jmul binary64 480
         (jadd binary64
           (binary64 (jmul binary64 (jmul binary64 4 6) 180
                      / jadd binary64 (jmul binary64 180 180) (jmul binary64 4 7200)))
           (binary64 (180 / jmul binary64 2 7200))))
       3"
proof -
  note t = approxSeconds_closed_form[OF scenario_valid]
  from t faithful_binary64 obtain r where r: "calculateTempoPracticeTime binary64 scenarioInput = Inr r"
    by blast
  from t r
  have "let a = startTempo scenarioInput;
            C = jmul binary64 60
                  (jmul binary64 (beatsPerPhrase scenarioInput) (repetitions scenarioInput));
            n = jfloor (binary64 (jsub binary64 (endTempo scenarioInput) a / stepSize scenarioInput));
            bPrime = jadd binary64 a (jmul binary64 n (stepSize scenarioInput));
            S = jadd binary64 a bPrime;
            P = jmul binary64 a bPrime;
            mainTerm = binary64 (jmul binary64 (jmul binary64 4 n) S
                         / jadd binary64 (jmul binary64 S S) (jmul binary64 4 P));
            correctionTerm = binary64 (S / jmul binary64 2 P)
        in jadd binary64 (jmul binary64 S S) (jmul binary64 4 P) \<noteq> 0 \<and>
           jmul binary64 2 P \<noteq> 0 \<and>
           approxSeconds (results r) =
             jmul binary64 (jmul binary64 C (jadd binary64 mainTerm correctionTerm))
               (sets scenarioInput)"
    by blast
  then have "jadd binary64 (jmul binary64 180 180) (jmul binary64 4 7200) \<noteq> 0 \<and>
     jmul binary64 2 7200 \<noteq> 0 \<and>
     approxSeconds (results r) =
     jmul binary64
       (jmul binary64 480
         (jadd binary64
           (binary64 (jmul binary64 (jmul binary64 4 6) 180
                      / jadd binary64 (jmul binary64 180 180) (jmul binary64 4 7200)))
           (binary64 (180 / jmul binary64 2 7200))))
       3"
    unfolding Let_def scenario_fields scenario_steps64 .
  moreover from r scenario_binary64 have "r = scenarioResult64" by simp
  ultimately show ?thesis
    using scenario_valid faithful_binary64 scenario_binary64 by blast
qed

section \<open>Step count and actual end tempo\<close>




section \<open>The actual end tempo and the target\<close>

text \<open>
  Claim C4 says that \<open>b' \<le> b\<close> for every valid input. Under binary64 this fails: with
  \<open>a = 40\<close>, \<open>b = 63.4\<close> and \<open>s = 2.6\<close> the quotient \<open>(b - a) / s\<close> rounds to 9, and
  \<open>40 + 9 * 2.6\<close> rounds to 63.400000000000006, above the target 63.4.
\<close>

theorem endTempo_overshoot_binary64:
  "valid_input overshootInput \<and>
   calculateTempoPracticeTime binary64 overshootInput =
     Inr \<lparr>results = \<lparr>exactSeconds = 625768746597653 / 2199023255552,
                      approxSeconds = 1260573625584955 / 4398046511104,
                      errorRate = 6503220668043241 / 9007199254740992\<rparr>,
          metadata = \<lparr>nSteps = 9, actualEndTempo = 2230689190431949 / 35184372088832,
                       totalBeatsPerStep = 8, timeConstantC = 480,
                       inputParams = overshootInput\<rparr>\<rparr> \<and>
   endTempo overshootInput < 2230689190431949 / 35184372088832"
  by (simp add: engine_eval valid_input_def overshootInput_def
      cong: Let_weak_cong bind_weak_cong option.case_cong_weak)

text \<open>
  Claim C4, amended. In exact arithmetic, for every valid input, \<open>b' = a + n * s\<close> satisfies
  \<open>b' \<le> b\<close>, with equality exactly when \<open>b - a\<close> is an integer multiple of \<open>s\<close>.
\<close>

theorem endTempo_bound_exact:
  assumes "valid_input p"
  shows "\<exists>r. calculateTempoPracticeTime exact p = Inr r \<and>
     actualEndTempo (metadata r) = startTempo p + nSteps (metadata r) * stepSize p \<and>
     actualEndTempo (metadata r) \<le> endTempo p \<and>
     (actualEndTempo (metadata r) = endTempo p \<longleftrightarrow>
        (\<exists>m::int. endTempo p - startTempo p = of_int m * stepSize p))"
proof -
  from assms obtain r where r: "calculateTempoPracticeTime exact p = Inr r"
    using exact_returns by blast
  from assms have pos: "0 < stepSize p" "startTempo p < endTempo p"
    by (simp_all add: valid_input_def)
  note fb = floor_step_bounds[OF pos]
  note er = exact_result[OF assms r]
  from fb(2,5) show ?thesis
    by (intro exI[of _ r]) (simp add: r er(1,2))
qed

text \<open>The scenario reaches its target (60 is six times 10); the boundary case stays below.\<close>

theorem endTempo_bound_exact_witness:
  "valid_input scenarioInput \<and> valid_input boundaryInput \<and>
   calculateTempoPracticeTime exact scenarioInput = Inr scenarioResultExact \<and>
   actualEndTempo (metadata scenarioResultExact) \<le> endTempo scenarioInput \<and>
   actualEndTempo (metadata scenarioResultExact) = endTempo scenarioInput \<and>
   (\<exists>m::int. endTempo scenarioInput - startTempo scenarioInput
      = of_int m * stepSize scenarioInput) \<and>
   calculateTempoPracticeTime exact boundaryInput = Inr boundaryResultExact \<and>
   actualEndTempo (metadata boundaryResultExact) \<le> endTempo boundaryInput \<and>
   actualEndTempo (metadata boundaryResultExact) \<noteq> endTempo boundaryInput \<and>
   \<not> (\<exists>m::int. endTempo boundaryInput - startTempo boundaryInput
      = of_int m * stepSize boundaryInput)"
proof -
  from endTempo_bound_exact[OF scenario_valid] scenario_exact
  have s: "actualEndTempo (metadata scenarioResultExact) \<le> endTempo scenarioInput"
    "actualEndTempo (metadata scenarioResultExact) = endTempo scenarioInput \<longleftrightarrow>
       (\<exists>m::int. endTempo scenarioInput - startTempo scenarioInput
          = of_int m * stepSize scenarioInput)"
    by auto
  from endTempo_bound_exact[OF boundary_valid] boundary_exact
  have b: "actualEndTempo (metadata boundaryResultExact) \<le> endTempo boundaryInput"
    "actualEndTempo (metadata boundaryResultExact) = endTempo boundaryInput \<longleftrightarrow>
       (\<exists>m::int. endTempo boundaryInput - startTempo boundaryInput
          = of_int m * stepSize boundaryInput)"
    by auto
  have "actualEndTempo (metadata scenarioResultExact) = endTempo scenarioInput"
    by (simp add: scenarioResultExact_def scenarioInput_def)
  moreover have "actualEndTempo (metadata boundaryResultExact) \<noteq> endTempo boundaryInput"
    by (simp add: boundaryResultExact_def boundaryInput_def)
  ultimately show ?thesis
    using s b scenario_valid boundary_valid scenario_exact boundary_exact by blast
qed

section \<open>No failing division\<close>




section \<open>Counts that are not whole numbers\<close>

text \<open>
  Claim C6 says that the validation rejects a count that is not a positive integer, such
  as \<open>B = 1.5\<close>, with \<open>NonPositiveCount\<close>. The check of the source (line 71) tests
  \<^verbatim>\<open>B <= 0 || R <= 0 || N <= 0\<close> only, although the message it throws says that the
  counts must be positive integers. With \<open>B = 1.5\<close> the validation passes and the engine
  returns a result with \<open>K = 3\<close> and \<open>C = 180\<close>.
\<close>

theorem fractional_count_accepted:
  "validate fractionalInput = None \<and>
   calculateTempoPracticeTime binary64 fractionalInput =
     Inr \<lparr>results = \<lparr>exactSeconds = 6230923826983519 / 140737488355328,
                      approxSeconds = 6314559955472143 / 140737488355328,
                      errorRate = 755633609788539 / 562949953421312\<rparr>,
          metadata = \<lparr>nSteps = 6, actualEndTempo = 120, totalBeatsPerStep = 3,
                       timeConstantC = 180, inputParams = fractionalInput\<rparr>\<rparr>"
  by (simp add: engine_eval fractionalInput_def
      cong: Let_weak_cong bind_weak_cong option.case_cong_weak)

section \<open>Order of the validation\<close>

text \<open>
  Claim C7. The validation checks, in this order, \<open>s > 0\<close> (else \<open>NonPositiveStep\<close>),
  \<open>a > 0\<close> and \<open>b > 0\<close> (else \<open>NonPositiveTempo\<close>), \<open>a < b\<close> (else
  \<open>InvalidTempoRange\<close>) and the three counts positive (else \<open>NonPositiveCount\<close>): the
  error reported is that of the first check that fails, whatever the later checks would
  say. A failure is decided by the validation alone, before any arithmetic of the
  computation and independently of the rounding, and the outcome is the error, with no
  result beside it.
\<close>

theorem validation_order:
  "(stepSize p \<le> 0 \<longrightarrow> calculateTempoPracticeTime rnd p = Inl NonPositiveStep) \<and>
   (0 < stepSize p \<and> (startTempo p \<le> 0 \<or> endTempo p \<le> 0) \<longrightarrow>
      calculateTempoPracticeTime rnd p = Inl NonPositiveTempo) \<and>
   (0 < stepSize p \<and> 0 < startTempo p \<and> 0 < endTempo p \<and> endTempo p \<le> startTempo p \<longrightarrow>
      calculateTempoPracticeTime rnd p = Inl InvalidTempoRange) \<and>
   (0 < stepSize p \<and> 0 < startTempo p \<and> 0 < endTempo p \<and> startTempo p < endTempo p \<and>
    (beatsPerPhrase p \<le> 0 \<or> repetitions p \<le> 0 \<or> sets p \<le> 0) \<longrightarrow>
      calculateTempoPracticeTime rnd p = Inl NonPositiveCount) \<and>
   (\<forall>e. validate p = Some e \<longrightarrow>
      e \<noteq> ZeroDenominator \<and> (\<forall>rnd'. calculateTempoPracticeTime rnd' p = Inl e))"
  by (auto simp: calculateTempoPracticeTime_def validate_def Let_def split: if_splits)

text \<open>
  Four inputs, each failing one check first; the first has \<open>s \<le> 0\<close> together with
  \<open>a \<ge> b\<close>, the third \<open>a \<ge> b\<close> together with \<open>B \<le> 0\<close>.
\<close>

theorem validation_order_witness:
  "calculateTempoPracticeTime binary64
     \<lparr>startTempo = 120, endTempo = 100, stepSize = 0,
      beatsPerPhrase = 4, repetitions = 2, sets = 3\<rparr> = Inl NonPositiveStep \<and>
   calculateTempoPracticeTime binary64
     \<lparr>startTempo = 0, endTempo = 0, stepSize = 5,
      beatsPerPhrase = 0, repetitions = 2, sets = 3\<rparr> = Inl NonPositiveTempo \<and>
   calculateTempoPracticeTime binary64
     \<lparr>startTempo = 120, endTempo = 100, stepSize = 5,
      beatsPerPhrase = 0, repetitions = 2, sets = 3\<rparr> = Inl InvalidTempoRange \<and>
   calculateTempoPracticeTime binary64
     \<lparr>startTempo = 60, endTempo = 120, stepSize = 10,
      beatsPerPhrase = 0, repetitions = 2, sets = 3\<rparr> = Inl NonPositiveCount \<and>
   validate \<lparr>startTempo = 120, endTempo = 100, stepSize = 0,
      beatsPerPhrase = 4, repetitions = 2, sets = 3\<rparr> = Some NonPositiveStep \<and>
   calculateTempoPracticeTime exact
     \<lparr>startTempo = 120, endTempo = 100, stepSize = 0,
      beatsPerPhrase = 4, repetitions = 2, sets = 3\<rparr> = Inl NonPositiveStep"
proof -
  have v: "validate \<lparr>startTempo = 120, endTempo = 100, stepSize = 0,
      beatsPerPhrase = 4, repetitions = 2, sets = 3\<rparr> = Some NonPositiveStep"
    by (simp add: validate_def)
  show ?thesis
    using v
      validation_order[of "\<lparr>startTempo = 120, endTempo = 100, stepSize = 0,
        beatsPerPhrase = 4, repetitions = 2, sets = 3\<rparr>" binary64]
      validation_order[of "\<lparr>startTempo = 0, endTempo = 0, stepSize = 5,
        beatsPerPhrase = 0, repetitions = 2, sets = 3\<rparr>" binary64]
      validation_order[of "\<lparr>startTempo = 120, endTempo = 100, stepSize = 5,
        beatsPerPhrase = 0, repetitions = 2, sets = 3\<rparr>" binary64]
      validation_order[of "\<lparr>startTempo = 60, endTempo = 120, stepSize = 10,
        beatsPerPhrase = 0, repetitions = 2, sets = 3\<rparr>" binary64]
    by simp
qed

section \<open>The error rate\<close>

text \<open>
  Claim C8. For every valid input the result's \<open>errorRate\<close> is
  \<open>(approxSeconds - exactSeconds) / exactSeconds * 100\<close>, as the engine computes it under
  every rounding, the divisor being non-zero. Under every faithful rounding, binary64
  among them, the rate is positive exactly when \<open>approxSeconds\<close> exceeds \<open>exactSeconds\<close>;
  in exact arithmetic the rate is the value of the formula exactly.
\<close>

theorem errorRate_formula:
  assumes "valid_input p"
  shows "(\<forall>rnd r. calculateTempoPracticeTime rnd p = Inr r \<longrightarrow>
       exactSeconds (results r) \<noteq> 0 \<and>
       errorRate (results r) =
         jmul rnd (rnd (jsub rnd (approxSeconds (results r)) (exactSeconds (results r))
                        / exactSeconds (results r))) 100) \<and>
    (\<forall>rnd. faithful rnd \<longrightarrow>
       (\<exists>r. calculateTempoPracticeTime rnd p = Inr r \<and>
          0 < exactSeconds (results r) \<and>
          (0 < errorRate (results r) \<longleftrightarrow>
             exactSeconds (results r) < approxSeconds (results r)))) \<and>
    (\<exists>r. calculateTempoPracticeTime exact p = Inr r \<and>
       errorRate (results r) =
         (approxSeconds (results r) - exactSeconds (results r)) / exactSeconds (results r) * 100)"
proof (intro conjI allI impI)
  fix rnd r
  assume "calculateTempoPracticeTime rnd p = Inr r"
  then have c: "computeStage rnd p = Some r" by (simp add: calc_Inr_iff)
  show "exactSeconds (results r) \<noteq> 0" by (rule computeStage_Some_approx(3)[OF c])
  show "errorRate (results r) =
         jmul rnd (rnd (jsub rnd (approxSeconds (results r)) (exactSeconds (results r))
                        / exactSeconds (results r))) 100"
    by (rule computeStage_Some_approx(5)[OF c])
next
  fix rnd :: rounding
  assume f: "faithful rnd"
  from computeStage_faithful_returns[OF f assms] obtain r where
    c: "computeStage rnd p = Some r" and e: "0 < exactSeconds (results r)" by blast
  then have r: "calculateTempoPracticeTime rnd p = Inr r" using assms by (simp add: calc_Inr_iff)
  from r e faithful_errorRate_sign[OF f c e]
  show "\<exists>r. calculateTempoPracticeTime rnd p = Inr r \<and>
          0 < exactSeconds (results r) \<and>
          (0 < errorRate (results r) \<longleftrightarrow>
             exactSeconds (results r) < approxSeconds (results r))"
    by blast
next
  from assms obtain r where r: "calculateTempoPracticeTime exact p = Inr r"
    using exact_returns by blast
  with exact_result(6)[OF assms r]
  show "\<exists>r. calculateTempoPracticeTime exact p = Inr r \<and>
       errorRate (results r) =
         (approxSeconds (results r) - exactSeconds (results r)) / exactSeconds (results r) * 100"
    by blast
qed

text \<open>The scenario: the approximation overestimates by about 1.34 percent.\<close>

theorem errorRate_formula_witness:
  "valid_input scenarioInput \<and> faithful binary64 \<and>
   calculateTempoPracticeTime binary64 scenarioInput = Inr scenarioResult64 \<and>
   exactSeconds (results scenarioResult64) \<noteq> 0 \<and>
   errorRate (results scenarioResult64) =
     jmul binary64
       (binary64 (jsub binary64 (approxSeconds (results scenarioResult64))
                    (exactSeconds (results scenarioResult64))
                  / exactSeconds (results scenarioResult64))) 100 \<and>
   0 < exactSeconds (results scenarioResult64) \<and>
   0 < errorRate (results scenarioResult64) \<and>
   exactSeconds (results scenarioResult64) < approxSeconds (results scenarioResult64) \<and>
   calculateTempoPracticeTime exact scenarioInput = Inr scenarioResultExact \<and>
   errorRate (results scenarioResultExact) = (2034 / 17 - 45454 / 385) / (45454 / 385) * 100"
proof -
  note t = errorRate_formula[OF scenario_valid]
  from t scenario_binary64
  have g: "exactSeconds (results scenarioResult64) \<noteq> 0 \<and>
     errorRate (results scenarioResult64) =
       jmul binary64
         (binary64 (jsub binary64 (approxSeconds (results scenarioResult64))
                      (exactSeconds (results scenarioResult64))
                    / exactSeconds (results scenarioResult64))) 100"
    by blast
  from t faithful_binary64 obtain q where q:
    "calculateTempoPracticeTime binary64 scenarioInput = Inr q"
    "0 < exactSeconds (results q)"
    "0 < errorRate (results q) \<longleftrightarrow> exactSeconds (results q) < approxSeconds (results q)"
    by blast
  from q(1) scenario_binary64 have qr: "q = scenarioResult64" by simp
  have lt: "exactSeconds (results scenarioResult64) < approxSeconds (results scenarioResult64)"
    by (simp add: scenarioResult64_def)
  with q(3) have pos: "0 < errorRate (results scenarioResult64)" unfolding qr by blast
  from q(2) have ex: "0 < exactSeconds (results scenarioResult64)" unfolding qr .
  from t scenario_exact
  have e: "errorRate (results scenarioResultExact) =
       (approxSeconds (results scenarioResultExact) - exactSeconds (results scenarioResultExact))
         / exactSeconds (results scenarioResultExact) * 100"
    by auto
  then have "errorRate (results scenarioResultExact) =
      (2034 / 17 - 45454 / 385) / (45454 / 385) * 100"
    by (simp add: scenarioResultExact_def)
  then show ?thesis
    using scenario_valid faithful_binary64 scenario_binary64 scenario_exact g lt pos ex by blast
qed

section \<open>Determinism\<close>

text \<open>
  The engine is embedded as a function of the rounding and of the six inputs. That two
  invocations with the same inputs return the same record, and that an invocation touches
  no state outside its locals, is built into this way of writing it down: the function
  \<^verbatim>\<open>calculateTempoPracticeTime\<close> of the source names none of the bindings of the enclosing
  scope, and the embedding has no state to pass.
\<close>

section \<open>A single step\<close>

text \<open>
  Claim C10 says that for \<open>n = 0\<close> the approximation equals the exact total and the error
  rate is 0. Under binary64 this fails: with \<open>a = 9\<close>, \<open>b = 10\<close>, \<open>s = 5\<close> and all counts 1,
  \<open>60 / 9\<close> rounds to 6.666666666666667 while \<open>60 * (18 / 162)\<close> is computed as
  6.666666666666666, and the error rate is \<open>-15 * 2 ^ -50\<close>.
\<close>

theorem zero_steps_differ_binary64:
  "valid_input zeroStepInput \<and>
   calculateTempoPracticeTime binary64 zeroStepInput =
     Inr \<lparr>results = \<lparr>exactSeconds = 7505999378950827 / 1125899906842624,
                      approxSeconds = 3752999689475413 / 562949953421312,
                      errorRate = - (15 / 1125899906842624)\<rparr>,
          metadata = \<lparr>nSteps = 0, actualEndTempo = 9, totalBeatsPerStep = 1,
                       timeConstantC = 60, inputParams = zeroStepInput\<rparr>\<rparr> \<and>
   (3752999689475413 / 562949953421312 :: rat) \<noteq> 7505999378950827 / 1125899906842624"
  by (simp add: engine_eval valid_input_def zeroStepInput_def
      cong: Let_weak_cong bind_weak_cong option.case_cong_weak)

text \<open>
  Claim C10, amended. In exact arithmetic, for every valid input with \<open>n = 0\<close>: the main
  term is 0, the correction term is \<open>2 * a / (2 * (a * a)) = 1 / a\<close>, so
  \<open>approxSeconds = C / a * N = exactSeconds\<close> and the error rate is 0.
\<close>

theorem zero_steps_agree_exact:
  assumes "valid_input p"
  shows "\<exists>r. calculateTempoPracticeTime exact p = Inr r \<and>
     (nSteps (metadata r) = 0 \<longrightarrow>
        (let a = startTempo p;
             S = a + actualEndTempo (metadata r);
             P = a * actualEndTempo (metadata r)
         in 4 * nSteps (metadata r) * S / (S * S + 4 * P) = 0 \<and>
            S / (2 * P) = 2 * a / (2 * (a * a)) \<and>
            S / (2 * P) = 1 / a) \<and>
        approxSeconds (results r) = timeConstantC (metadata r) / startTempo p * sets p \<and>
        approxSeconds (results r) = exactSeconds (results r) \<and>
        errorRate (results r) = 0)"
proof -
  from assms obtain r where r: "calculateTempoPracticeTime exact p = Inr r"
    using exact_returns by blast
  from assms have a: "0 < startTempo p" by (simp add: valid_input_def)
  have "nSteps (metadata r) = 0 \<longrightarrow>
        (let a = startTempo p;
             S = a + actualEndTempo (metadata r);
             P = a * actualEndTempo (metadata r)
         in 4 * nSteps (metadata r) * S / (S * S + 4 * P) = 0 \<and>
            S / (2 * P) = 2 * a / (2 * (a * a)) \<and>
            S / (2 * P) = 1 / a) \<and>
        approxSeconds (results r) = timeConstantC (metadata r) / startTempo p * sets p \<and>
        approxSeconds (results r) = exactSeconds (results r) \<and>
        errorRate (results r) = 0"
  proof
    assume n: "nSteps (metadata r) = 0"
    note st = exact_single_term[OF assms r n]
    have "errorRate (results r) = 0"
      unfolding exact_result(6)[OF assms r] st by simp
    moreover have "(startTempo p + startTempo p) / (2 * (startTempo p * startTempo p))
        = 1 / startTempo p"
      using a by (simp add: field_simps)
    ultimately show "(let a = startTempo p;
             S = a + actualEndTempo (metadata r);
             P = a * actualEndTempo (metadata r)
         in 4 * nSteps (metadata r) * S / (S * S + 4 * P) = 0 \<and>
            S / (2 * P) = 2 * a / (2 * (a * a)) \<and>
            S / (2 * P) = 1 / a) \<and>
        approxSeconds (results r) = timeConstantC (metadata r) / startTempo p * sets p \<and>
        approxSeconds (results r) = exactSeconds (results r) \<and>
        errorRate (results r) = 0"
      using n st by (simp add: Let_def)
  qed
  with r show ?thesis by blast
qed

text \<open>The input of the counterexample, now in exact arithmetic: both totals are 20 / 3.\<close>

theorem zero_steps_agree_exact_witness:
  "valid_input zeroStepInput \<and>
   calculateTempoPracticeTime exact zeroStepInput = Inr zeroStepResultExact \<and>
   nSteps (metadata zeroStepResultExact) = 0 \<and>
   (9 + 9) / (2 * (9 * 9)) = (1 / 9 :: rat) \<and>
   approxSeconds (results zeroStepResultExact) = 60 / 9 * 1 \<and>
   approxSeconds (results zeroStepResultExact) = exactSeconds (results zeroStepResultExact) \<and>
   errorRate (results zeroStepResultExact) = 0"
proof -
  have n: "nSteps (metadata zeroStepResultExact) = 0"
    by (simp add: zeroStepResultExact_def)
  have f: "timeConstantC (metadata zeroStepResultExact) = 60"
    "actualEndTempo (metadata zeroStepResultExact) = 9"
    "startTempo zeroStepInput = 9" "sets zeroStepInput = 1"
    by (simp_all add: zeroStepResultExact_def zeroStepInput_def)
  from zero_steps_agree_exact[OF zeroStep_valid] zeroStep_exact n
  have t: "(let a = startTempo zeroStepInput;
             S = a + actualEndTempo (metadata zeroStepResultExact);
             P = a * actualEndTempo (metadata zeroStepResultExact)
         in 4 * nSteps (metadata zeroStepResultExact) * S / (S * S + 4 * P) = 0 \<and>
            S / (2 * P) = 2 * a / (2 * (a * a)) \<and>
            S / (2 * P) = 1 / a)"
    "approxSeconds (results zeroStepResultExact) =
       timeConstantC (metadata zeroStepResultExact) / startTempo zeroStepInput * sets zeroStepInput"
    "approxSeconds (results zeroStepResultExact) = exactSeconds (results zeroStepResultExact)"
    "errorRate (results zeroStepResultExact) = 0"
    by auto
  from t(1) have "(9 + 9) / (2 * (9 * 9)) = (1 / 9 :: rat)"
    unfolding Let_def f by blast
  moreover from t(2) have "approxSeconds (results zeroStepResultExact) = 60 / 9 * 1"
    unfolding f .
  ultimately show ?thesis
    using zeroStep_valid zeroStep_exact n t(3,4) by blast
qed

end
